theory Spec2Isabelle
  imports Main "HOL-Library.Word"
begin

unbundle bit_operations_syntax

section \<open>The rfm69 packet-radio driver (radio.go)\<close>

text \<open>
  radio.go holds two variants of the driver. The development follows the second one, with
  chunked FIFO writes and chip-driven mode changes (\<open>Send\<close>, \<open>SendRadioHead\<close>,
  \<open>transmit\<close>, \<open>finishTX\<close>, \<open>Receive\<close>, \<open>ReceiveRadioHead\<close>, \<open>finishRX\<close>,
  \<open>SendAndReceive\<close>); of the first one it has \<open>SendRadioHead\<close> and \<open>transmit\<close>, under the
  names \<open>SendRadioHead_polled\<close> and \<open>transmit_polled\<close>. Bytes are 8-bit words, lengths
  are natural numbers, a \<open>time.Duration\<close> is an integer number of nanoseconds.
  \<open>time.Sleep\<close> and the logging change nothing the driver can observe and are left out.
\<close>

type_synonym byte = "8 word"

subsection \<open>Constants of radio.go\<close>

definition maxPacketSize :: nat where "maxPacketSize = 110"
definition fifoSize :: nat where "fifoSize = 66"
definition fifoThreshold :: nat where "fifoThreshold = 20"
definition byteDuration :: int where "byteDuration = 1000000"

subsection \<open>The register map\<close>

text \<open>
  Modelled from the spec: the register map is declared outside radio.go. Sections 3 and 6
  of the specification name a FIFO data register, a mode register, an interrupt-status
  register with the bit flags FifoFull, FifoNotEmpty, FifoLevel and FifoOverrun, and an
  auto-mode register with an enter condition, an exit condition and an intermediate mode.
  The numbers are those of the chip's register map; the theorems below use only that the
  registers are distinct and the flags are non-zero.
\<close>

definition RegFifo :: byte where "RegFifo = 0x00"
definition RegOpMode :: byte where "RegOpMode = 0x01"
definition RegIrqFlags2 :: byte where "RegIrqFlags2 = 0x28"
definition RegAutoModes :: byte where "RegAutoModes = 0x3B"

definition FifoFull :: byte where "FifoFull = 0x80"
definition FifoNotEmpty :: byte where "FifoNotEmpty = 0x40"
definition FifoLevel :: byte where "FifoLevel = 0x20"
definition FifoOverrun :: byte where "FifoOverrun = 0x10"

definition EnterConditionFifoNotEmpty :: byte where "EnterConditionFifoNotEmpty = 0x20"
definition ExitConditionFifoEmpty :: byte where "ExitConditionFifoEmpty = 0x04"
definition IntermediateModeTx :: byte where "IntermediateModeTx = 0x03"

definition SleepMode :: byte where "SleepMode = 0x00"
definition StandbyMode :: byte where "StandbyMode = 0x04"
definition TransmitterMode :: byte where "TransmitterMode = 0x0C"
definition ReceiverMode :: byte where "ReceiverMode = 0x10"

subsection \<open>The hardware register interface\<close>

text \<open>
  Modelled from the spec: the hardware behind \<open>r.hw\<close> is an external collaborator.
  Section 6 gives its operations: ReadRegister, WriteRegister, WriteBurst, AwaitInterrupt
  and ReadRSSI; sections 3 and 7 have a failing register operation set the sticky error
  latch. Every call the driver makes is recorded, with the value it returned, in the
  history of accesses.
\<close>

datatype access =
    RegRead byte byte
  | RegWrite byte byte
  | BurstWrite byte "byte list"
  | Await int
  | RssiRead int

text \<open>
  A hardware is any function of that history: \<open>regValue h t a\<close> is the byte a read of
  register \<open>a\<close> returns after the accesses \<open>t\<close>, \<open>rssiValue h t\<close> the signal strength read
  after \<open>t\<close>, and \<open>opFails h t\<close> says whether the access that ends \<open>t\<close> failed. Two moments
  of one run never have the same history, so every behaviour of a chip is such a function.
\<close>

record hardware =
  regValue :: "access list \<Rightarrow> byte \<Rightarrow> byte"
  rssiValue :: "access list \<Rightarrow> int"
  opFails :: "access list \<Rightarrow> bool"

subsection \<open>The Radio instance\<close>

text \<open>
  Modelled from the spec: the struct \<open>Radio\<close> is declared outside radio.go. radio.go uses
  its fields \<open>hw\<close>, \<open>err\<close>, \<open>txPacket\<close> and \<open>receiveBuffer\<close>; section 3 of the specification
  adds the instance's mode and a sticky error latch set by a failing register operation.
  \<open>trace\<close> is the history of the accesses made so far and \<open>hwErr\<close> the latch of the
  hardware interface; \<open>opMode\<close> is the instance's mode.
\<close>

record radio =
  hw :: hardware
  trace :: "access list"
  hwErr :: bool
  err :: bool
  opMode :: byte
  txPacket :: "byte list"
  receiveBuffer :: "byte list"

text \<open>A call either returns or panics; the panic keeps the state it was raised in.\<close>

datatype 'a outcome = Returned 'a | Panicked radio

text \<open>Every access is appended to the history; a failing one sets the latch for good.\<close>

definition access_hw :: "access \<Rightarrow> radio \<Rightarrow> radio" where
  "access_hw a s =
     s\<lparr>trace := trace s @ [a], hwErr := hwErr s \<or> opFails (hw s) (trace s @ [a])\<rparr>"

definition ReadRegister :: "byte \<Rightarrow> radio \<Rightarrow> byte \<times> radio" where
  "ReadRegister a s =
     (let v = regValue (hw s) (trace s) a in (v, access_hw (RegRead a v) s))"

definition WriteRegister :: "byte \<Rightarrow> byte \<Rightarrow> radio \<Rightarrow> radio" where
  "WriteRegister a v s = access_hw (RegWrite a v) s"

definition WriteBurst :: "byte \<Rightarrow> byte list \<Rightarrow> radio \<Rightarrow> radio" where
  "WriteBurst a bs s = access_hw (BurstWrite a bs) s"

definition AwaitInterrupt :: "int \<Rightarrow> radio \<Rightarrow> radio" where
  "AwaitInterrupt timeout s = access_hw (Await timeout) s"

definition ReadRSSI :: "radio \<Rightarrow> int \<times> radio" where
  "ReadRSSI s = (let v = rssiValue (hw s) (trace s) in (v, access_hw (RssiRead v) s))"

subsection \<open>The mode controller\<close>

text \<open>
  Modelled from the spec: \<open>Error\<close>, \<open>setMode\<close> and \<open>mode\<close> are declared outside radio.go.
  Section 4.1: \<open>Error()\<close> returns the latch. \<open>setMode(target)\<close> requests a mode transition
  and returns once the register write completes; sections 4.3 (step 5) and 4.4 (step 6)
  have the mode forced on every exit path, a failed register operation included, and
  section 3 makes the mode controller the only writer of the instance's mode. Section 4.3
  (step 4) has \<open>finishTX\<close> poll the mode register until it reports Standby, so \<open>mode()\<close>
  reads that register; what it reads is then the last known mode.
\<close>

definition Error :: "radio \<Rightarrow> bool" where
  "Error s = (hwErr s \<or> err s)"

definition setMode :: "byte \<Rightarrow> radio \<Rightarrow> radio" where
  "setMode m s = (WriteRegister RegOpMode m s)\<lparr>opMode := m\<rparr>"

definition mode :: "radio \<Rightarrow> byte \<times> radio" where
  "mode s = (case ReadRegister RegOpMode s of (m, s') \<Rightarrow> (m, s'\<lparr>opMode := m\<rparr>))"

subsection \<open>FIFO status and the transmit pipeline\<close>

definition fifoEmpty :: "radio \<Rightarrow> bool \<times> radio" where
  "fifoEmpty s = (case ReadRegister RegIrqFlags2 s of (v, s') \<Rightarrow> (v AND FifoNotEmpty = 0, s'))"

definition fifoFull :: "radio \<Rightarrow> bool \<times> radio" where
  "fifoFull s = (case ReadRegister RegIrqFlags2 s of (v, s') \<Rightarrow> (v AND FifoFull \<noteq> 0, s'))"

definition fifoThresholdExceeded :: "radio \<Rightarrow> bool \<times> radio" where
  "fifoThresholdExceeded s =
     (case ReadRegister RegIrqFlags2 s of (v, s') \<Rightarrow> (v AND FifoLevel \<noteq> 0, s'))"

definition clearFIFO :: "radio \<Rightarrow> radio" where
  "clearFIFO s = WriteRegister RegIrqFlags2 FifoOverrun s"

text \<open>
  The wait for automatic return to standby in \<open>finishTX\<close>. The loop has no bound in the
  source, so it is a partial function: \<open>None\<close> is the run that never leaves the loop.
\<close>

partial_function (option) finishTX :: "radio \<Rightarrow> nat \<Rightarrow> radio option" where
  "finishTX s numBytes =
     (if Error s then Some s
      else (case mode s of (m, s') \<Rightarrow>
              if m = StandbyMode then Some s' else finishTX s' numBytes))"

text \<open>The inner loop of \<open>transmit\<close>: poll until the FIFO level is below the threshold.\<close>

partial_function (option) awaitRoom :: "radio \<Rightarrow> nat \<Rightarrow> (nat \<times> radio) option" where
  "awaitRoom s avail =
     (if Error s then Some (avail, s)
      else (case fifoThresholdExceeded s of (exceeded, s') \<Rightarrow>
              if \<not> exceeded then Some (fifoSize - fifoThreshold, s')
              else awaitRoom s' avail))"

text \<open>The outer loop of \<open>transmit\<close>, from the state, the bytes left and \<open>avail\<close>.\<close>

partial_function (option) transmitLoop ::
  "radio \<Rightarrow> byte list \<Rightarrow> nat \<Rightarrow> (nat \<times> radio) option" where
  "transmitLoop s data avail =
     (if Error s then Some (avail, s)
      else (let avail1 = (if avail > length data then length data else avail);
                s1 = WriteBurst RegFifo (take avail1 data) s;
                data1 = drop avail1 data
            in if length data1 = 0 then Some (avail1, s1)
               else Option.bind (awaitRoom s1 avail1)
                      (\<lambda>(avail2, s2). transmitLoop s2 data1 avail2)))"

declare finishTX.simps [code] awaitRoom.simps [code] transmitLoop.simps [code]

definition transmit :: "radio \<Rightarrow> byte list \<Rightarrow> radio option" where
  "transmit s data =
     Option.bind (transmitLoop s data fifoSize) (\<lambda>(avail, s'). finishTX s' avail)"

text \<open>Go's \<open>copy(dst, src)\<close>: as many elements as both slices have.\<close>

definition copy_go :: "'a list \<Rightarrow> 'a list \<Rightarrow> 'a list" where
  "copy_go dst src =
     (let n = min (length dst) (length src) in take n src @ drop n dst)"

definition Send :: "radio \<Rightarrow> byte list \<Rightarrow> radio outcome option" where
  "Send s data =
     (if Error s then Some (Returned s)
      else if length data > maxPacketSize then Some (Panicked s)
      else (let s1 = s\<lparr>txPacket := copy_go (txPacket s) data\<rparr>
            in if length data \<ge> length (txPacket s1) then Some (Panicked s1)
               else (let s2 = s1\<lparr>txPacket := (txPacket s1)[length data := 0]\<rparr>;
                         packet = take (length data + 1) (txPacket s2);
                         s3 = clearFIFO s2;
                         s4 = setMode StandbyMode s3;
                         s5 = WriteRegister RegAutoModes
                                (EnterConditionFifoNotEmpty OR ExitConditionFifoEmpty
                                   OR IntermediateModeTx) s4
                     in map_option (\<lambda>s6. Returned (setMode StandbyMode s6))
                          (transmit s5 packet))))"

text \<open>
  \<open>SendRadioHead\<close> stores the five header bytes by index (a panic when the buffer is
  shorter), then runs \<open>copy(r.txPacket[:5], data)\<close> and hands the whole of \<open>r.txPacket\<close>
  to \<open>transmit\<close>.
\<close>

definition SendRadioHead ::
  "radio \<Rightarrow> byte list \<Rightarrow> byte \<Rightarrow> byte \<Rightarrow> byte \<Rightarrow> byte \<Rightarrow> radio outcome option" where
  "SendRadioHead s data to from ident flags =
     (if Error s then Some (Returned s)
      else if length data > maxPacketSize then Some (Panicked s)
      else if length (txPacket s) < 5
        then Some (Panicked (s\<lparr>txPacket :=
               copy_go (txPacket s) [of_nat (length data) + 4, to, from, ident, flags]\<rparr>))
      else (let p0 = txPacket s;
                p1 = p0[0 := of_nat (length data) + 4];
                p2 = p1[1 := to];
                p3 = p2[2 := from];
                p4 = p3[3 := ident];
                p5 = p4[4 := flags];
                p6 = copy_go (take 5 p5) data @ drop 5 p5;
                s1 = s\<lparr>txPacket := p6\<rparr>;
                s2 = clearFIFO s1;
                s3 = setMode StandbyMode s2;
                s4 = WriteRegister RegAutoModes
                       (EnterConditionFifoNotEmpty OR ExitConditionFifoEmpty
                          OR IntermediateModeTx) s3
            in map_option (\<lambda>s5. Returned (setMode StandbyMode s5))
                 (transmit s4 (txPacket s4))))"

subsection \<open>The earlier variant of the headered send\<close>

text \<open>
  The first \<open>transmit\<close> of radio.go: one burst, an explicit change to Transmitter mode,
  and a poll of bit \<open>0x08\<close> of the status register.
\<close>

partial_function (option) awaitPacketSent :: "radio \<Rightarrow> radio option" where
  "awaitPacketSent s =
     (if Error s then Some s
      else (case ReadRegister RegIrqFlags2 s of (v, s') \<Rightarrow>
              if v AND 0x08 \<noteq> 0 then Some s' else awaitPacketSent s'))"

declare awaitPacketSent.simps [code]

definition transmit_polled :: "radio \<Rightarrow> byte list \<Rightarrow> radio outcome option" where
  "transmit_polled s data =
     (if length data > fifoSize then Some (Panicked s)
      else (let s1 = clearFIFO s;
                s2 = WriteRegister RegAutoModes 0 s1;
                s3 = WriteBurst RegFifo data s2;
                s4 = setMode TransmitterMode s3
            in map_option Returned (awaitPacketSent s4)))"

text \<open>
  The first \<open>SendRadioHead\<close>: it runs \<open>copy(r.txPacket[5:], data)\<close> and hands
  \<open>r.txPacket[:byte(len(data))+5]\<close> to \<open>transmit\<close>; the slice bound is computed in bytes,
  and a bound beyond the capacity of the buffer panics. The buffer is a list here, a slice
  whose capacity is its length, as \<open>make\<close> allocates it.
\<close>

definition SendRadioHead_polled ::
  "radio \<Rightarrow> byte list \<Rightarrow> byte \<Rightarrow> byte \<Rightarrow> byte \<Rightarrow> byte \<Rightarrow> radio outcome option" where
  "SendRadioHead_polled s data to from ident flags =
     (if Error s then Some (Returned s)
      else if length data > maxPacketSize then Some (Panicked s)
      else if length (txPacket s) < 5
        then Some (Panicked (s\<lparr>txPacket :=
               copy_go (txPacket s) [of_nat (length data) + 4, to, from, ident, flags]\<rparr>))
      else (let p0 = txPacket s;
                p1 = p0[0 := of_nat (length data) + 4];
                p2 = p1[1 := to];
                p3 = p2[2 := from];
                p4 = p3[3 := ident];
                p5 = p4[4 := flags];
                p6 = take 5 p5 @ copy_go (drop 5 p5) data;
                s1 = s\<lparr>txPacket := p6\<rparr>;
                s2 = setMode StandbyMode s1;
                n = unat (of_nat (length data) + 5 :: byte)
            in if n > length (txPacket s2) then Some (Panicked s2)
               else Option.bind (transmit_polled s2 (take n (txPacket s2)))
                      (\<lambda>r. case r of
                             Panicked s' \<Rightarrow> Some (Panicked s')
                           | Returned s3 \<Rightarrow> Some (Returned (setMode StandbyMode s3)))))"

subsection \<open>The receive pipeline\<close>

text \<open>
  \<open>bytes.Buffer\<close>: \<open>WriteByte\<close> appends and returns no error; \<open>Read\<close> into a slice as long
  as the buffer empties it and returns no error; \<open>Reset\<close> empties it. A returned packet is
  \<open>None\<close> for Go's nil slice.
\<close>

definition finishRX :: "radio \<Rightarrow> int \<Rightarrow> byte list option \<times> int \<times> radio" where
  "finishRX s rssi =
     (let s1 = setMode StandbyMode s;
          size = length (receiveBuffer s1)
      in if size = 0 then (None, rssi, s1)
         else (let p = take size (receiveBuffer s1);
                   s2 = s1\<lparr>receiveBuffer := drop size (receiveBuffer s1), err := False\<rparr>
               in if Error s2 then (None, rssi, s2)
                  else (Some p, rssi, s2\<lparr>receiveBuffer := []\<rparr>)))"

partial_function (option) receiveLoop ::
  "radio \<Rightarrow> int \<Rightarrow> int \<Rightarrow> (byte list option \<times> int \<times> radio) option" where
  "receiveLoop s rssi timeout =
     (if Error s then Some (None, rssi, s)
      else (case fifoEmpty s of (isEmpty, s1) \<Rightarrow>
        if isEmpty then
          (if timeout \<le> 0 then Some (None, rssi, s1)
           else receiveLoop s1 rssi (timeout - byteDuration))
        else (case ReadRegister RegFifo s1 of (c, s2) \<Rightarrow>
          if Error s2 then Some (None, rssi, s2)
          else if c = 0 then Some (finishRX s2 rssi)
          else receiveLoop
                 (s2\<lparr>err := False, receiveBuffer := receiveBuffer s2 @ [c]\<rparr>)
                 rssi timeout)))"

declare receiveLoop.simps [code]

text \<open>The deferred \<open>setMode(SleepMode)\<close> runs after the result has been computed.\<close>

definition Receive :: "radio \<Rightarrow> int \<Rightarrow> (byte list option \<times> int \<times> radio) option" where
  "Receive s timeout =
     (if Error s then Some (None, 0, s)
      else (let s1 = WriteRegister RegAutoModes 0 s;
                s2 = setMode ReceiverMode s1;
                s3 = AwaitInterrupt timeout s2
            in (case ReadRSSI s3 of (rssi, s4) \<Rightarrow>
                  map_option (\<lambda>(p, r, s5). (p, r, setMode SleepMode s5))
                    (receiveLoop s4 rssi timeout))))"

text \<open>The headered loop; \<open>len\<close> is the local \<open>length\<close>, \<open>-1\<close> until the first byte.\<close>

partial_function (option) receiveRadioHeadLoop ::
  "radio \<Rightarrow> int \<Rightarrow> int \<Rightarrow> int \<Rightarrow> (byte list option \<times> int \<times> radio) option" where
  "receiveRadioHeadLoop s rssi timeout len =
     (if Error s then Some (None, rssi, s)
      else (case fifoEmpty s of (isEmpty, s1) \<Rightarrow>
        if isEmpty then
          (if timeout \<le> 0 then Some (None, rssi, s1)
           else receiveRadioHeadLoop s1 rssi (timeout - byteDuration) len)
        else (case ReadRegister RegFifo s1 of (c, s2) \<Rightarrow>
          if Error s2 then Some (None, rssi, s2)
          else if len = -1 then receiveRadioHeadLoop s2 rssi timeout (uint c)
          else (let s3 = s2\<lparr>err := False, receiveBuffer := receiveBuffer s2 @ [c]\<rparr>
                in if int (length (receiveBuffer s3)) = len then Some (finishRX s3 rssi)
                   else receiveRadioHeadLoop s3 rssi timeout len))))"

declare receiveRadioHeadLoop.simps [code]

definition ReceiveRadioHead ::
  "radio \<Rightarrow> int \<Rightarrow> (byte list option \<times> int \<times> radio) option" where
  "ReceiveRadioHead s timeout =
     (if Error s then Some (None, 0, s)
      else (let s1 = WriteRegister RegAutoModes 0 s;
                s2 = setMode ReceiverMode s1;
                s3 = AwaitInterrupt timeout s2
            in (case ReadRSSI s3 of (rssi, s4) \<Rightarrow>
                  map_option (\<lambda>(p, r, s5). (p, r, setMode SleepMode s5))
                    (receiveRadioHeadLoop s4 rssi timeout (-1)))))"

definition SendAndReceive ::
  "radio \<Rightarrow> byte list \<Rightarrow> int \<Rightarrow> (byte list option \<times> int \<times> radio) outcome option" where
  "SendAndReceive s data timeout =
     Option.bind (Send s data)
       (\<lambda>r. case r of
              Panicked s' \<Rightarrow> Some (Panicked s')
            | Returned s' \<Rightarrow>
                if Error s' then Some (Returned (None, 0, s'))
                else map_option Returned (Receive s' timeout))"

subsection \<open>Observations on a run, and hardware to run against\<close>

text \<open>The chunks burst-written to the FIFO register, in order.\<close>

fun burstOf :: "access \<Rightarrow> byte list list" where
  "burstOf (BurstWrite a bs) = (if a = RegFifo then [bs] else [])"
| "burstOf _ = []"

definition fifoBursts :: "access list \<Rightarrow> byte list list" where
  "fifoBursts t = concat (map burstOf t)"

text \<open>The bytes read from the FIFO register, in order.\<close>

fun fifoReadOf :: "access \<Rightarrow> byte list" where
  "fifoReadOf (RegRead a v) = (if a = RegFifo then [v] else [])"
| "fifoReadOf _ = []"

definition fifoReads :: "access list \<Rightarrow> byte list" where
  "fifoReads t = concat (map fifoReadOf t)"

text \<open>The bytes of a returned packet; Go's nil slice has none.\<close>

fun bytes_of :: "byte list option \<Rightarrow> byte list" where
  "bytes_of None = []"
| "bytes_of (Some p) = p"

text \<open>A hardware on which no access fails.\<close>

definition neverFails :: "hardware \<Rightarrow> bool" where
  "neverFails h = (\<forall>t. \<not> opFails h t)"

text \<open>The history after \<open>n\<close> more reads of register \<open>a\<close>, one after the other.\<close>

primrec polls :: "hardware \<Rightarrow> byte \<Rightarrow> access list \<Rightarrow> nat \<Rightarrow> access list" where
  "polls h a t 0 = t"
| "polls h a t (Suc n) = polls h a (t @ [RegRead a (regValue h t a)]) n"

text \<open>
  Polling the status register eventually finds the FIFO level below the threshold, and
  polling the mode register eventually finds Standby: a chip that drains its FIFO.
\<close>

definition roomEventually :: "hardware \<Rightarrow> bool" where
  "roomEventually h =
     (\<forall>t. \<exists>n. regValue h (polls h RegIrqFlags2 t n) RegIrqFlags2 AND FifoLevel = 0)"

definition standbyEventually :: "hardware \<Rightarrow> bool" where
  "standbyEventually h =
     (\<forall>t. \<exists>n. regValue h (polls h RegOpMode t n) RegOpMode = StandbyMode)"

text \<open>A chip whose mode register never reports Standby.\<close>

definition neverStandby :: "hardware \<Rightarrow> bool" where
  "neverStandby h = (\<forall>t. regValue h t RegOpMode \<noteq> StandbyMode)"

text \<open>A chip that is in Standby whenever asked and whose FIFO is always drained.\<close>

definition idleHw :: hardware where
  "idleHw = \<lparr>regValue = (\<lambda>t a. if a = RegOpMode then StandbyMode else 0),
              rssiValue = (\<lambda>t. -70), opFails = (\<lambda>t. False)\<rparr>"

text \<open>A chip that reports bit \<open>0x08\<close> of the status register, packet sent, at once.\<close>

definition sentHw :: hardware where
  "sentHw = \<lparr>regValue = (\<lambda>t a. if a = RegIrqFlags2 then 0x08 else 0),
              rssiValue = (\<lambda>t. -70), opFails = (\<lambda>t. False)\<rparr>"

text \<open>A chip that stays in Transmitter mode for ever.\<close>

definition stuckHw :: hardware where
  "stuckHw = \<lparr>regValue = (\<lambda>t a. if a = RegOpMode then TransmitterMode else 0),
               rssiValue = (\<lambda>t. -70), opFails = (\<lambda>t. False)\<rparr>"

text \<open>
  A chip whose receive FIFO holds the bytes \<open>bs\<close>: the status register reports
  FifoNotEmpty until all of them have been read, and the FIFO register hands them out
  in order.
\<close>

definition feedHw :: "byte list \<Rightarrow> hardware" where
  "feedHw bs =
     \<lparr>regValue = (\<lambda>t a.
        if a = RegIrqFlags2
          then (if length (fifoReads t) < length bs then FifoNotEmpty else 0)
        else if a = RegFifo \<and> length (fifoReads t) < length bs
          then bs ! length (fifoReads t)
        else 0),
      rssiValue = (\<lambda>t. -70), opFails = (\<lambda>t. False)\<rparr>"

text \<open>
  Modelled from the spec: the constructor of \<open>Radio\<close> is outside radio.go. Section 3: the
  transmit buffer holds the largest framed packet, 110 payload bytes and up to 5 header
  or terminator bytes; section 4.1: Sleep is the initial mode.
\<close>

definition newRadio :: "hardware \<Rightarrow> radio" where
  "newRadio h = \<lparr>hw = h, trace = [], hwErr = False, err = False, opMode = SleepMode,
                 txPacket = replicate 115 0, receiveBuffer = []\<rparr>"

text \<open>The polls of the status register that found the FIFO empty.\<close>
fun emptyPollOf :: "access \<Rightarrow> nat" where
  "emptyPollOf (RegRead a v) = (if a = RegIrqFlags2 \<and> v AND FifoNotEmpty = 0 then 1 else 0)"
| "emptyPollOf _ = 0"

definition emptyPolls :: "access list \<Rightarrow> nat" where
  "emptyPolls t = sum_list (map emptyPollOf t)"

text \<open>A chip on which every access fails.\<close>

definition deadHw :: hardware where
  "deadHw = \<lparr>regValue = (\<lambda>t a. 0), rssiValue = (\<lambda>t. 0), opFails = (\<lambda>t. True)\<rparr>"

text \<open>The instance a fresh radio becomes by one \<open>Receive\<close> on that chip.\<close>

definition latchedRadio :: radio where
  "latchedRadio =
     \<lparr>hw = deadHw,
      trace = [RegWrite RegAutoModes 0, RegWrite RegOpMode ReceiverMode, Await 0, RssiRead 0,
               RegWrite RegOpMode SleepMode],
      hwErr = True, err = False, opMode = SleepMode,
      txPacket = replicate 115 0, receiveBuffer = []\<rparr>"

text \<open>
  A chip whose FIFO always holds a byte and stays above the threshold, and on which the
  \<open>n\<close>-th access and all later ones fail.
\<close>

definition flakyHw :: "nat \<Rightarrow> hardware" where
  "flakyHw n = \<lparr>regValue = (\<lambda>t a. if a = RegIrqFlags2 then FifoNotEmpty OR FifoLevel else 0x41),
       rssiValue = (\<lambda>t. -70), opFails = (\<lambda>t. n \<le> length t)\<rparr>"

text \<open>
  A chip whose FIFO holds \<open>bs1\<close> at first; \<open>bs2\<close> arrives when the driver waits for the
  interrupt a second time.
\<close>

definition laterHw :: "byte list \<Rightarrow> byte list \<Rightarrow> hardware" where
  "laterHw bs1 bs2 =
     \<lparr>regValue = (\<lambda>t a. regValue
         (feedHw (if length (filter (\<lambda>x. case x of Await _ \<Rightarrow> True | _ \<Rightarrow> False) t) \<le> 1
                  then bs1 else bs1 @ bs2)) t a),
      rssiValue = (\<lambda>t. -70), opFails = (\<lambda>t. False)\<rparr>"

text \<open>
  A chip that drains slowly: the status register reports the FIFO above the threshold, and
  the mode register Transmitter, until the driver has polled twice in a row.
\<close>

fun isRead :: "access \<Rightarrow> bool" where
  "isRead (RegRead a v) = True"
| "isRead _ = False"

definition drainHw :: hardware where
  "drainHw =
     \<lparr>regValue = (\<lambda>t a.
        if a = RegIrqFlags2 then (if 2 \<le> length (takeWhile isRead (rev t)) then 0 else FifoLevel)
        else if a = RegOpMode
          then (if 2 \<le> length (takeWhile isRead (rev t)) then StandbyMode else TransmitterMode)
        else 0),
      rssiValue = (\<lambda>t. -70), opFails = (\<lambda>t. False)\<rparr>"

text \<open>The state \<open>Send\<close> hands to \<open>transmit\<close>.\<close>

definition sendSetup :: "radio \<Rightarrow> byte list \<Rightarrow> radio" where
  "sendSetup s data =
     WriteRegister RegAutoModes
       (EnterConditionFifoNotEmpty OR ExitConditionFifoEmpty OR IntermediateModeTx)
       (setMode StandbyMode
          (clearFIFO (s\<lparr>txPacket := (copy_go (txPacket s) data)[length data := 0]\<rparr>)))"

text \<open>The state \<open>SendRadioHead\<close> hands to \<open>transmit\<close>, with the buffer it has built.\<close>

definition radioHeadSetup :: "radio \<Rightarrow> byte list \<Rightarrow> radio" where
  "radioHeadSetup s packet =
     WriteRegister RegAutoModes
       (EnterConditionFifoNotEmpty OR ExitConditionFifoEmpty OR IntermediateModeTx)
       (setMode StandbyMode (clearFIFO (s\<lparr>txPacket := packet\<rparr>)))"

section \<open>Basic facts about the hardware accesses\<close>

lemma access_hw_simps [simp]:
  "hw (access_hw a s) = hw s"
  "trace (access_hw a s) = trace s @ [a]"
  "err (access_hw a s) = err s"
  "opMode (access_hw a s) = opMode s"
  "txPacket (access_hw a s) = txPacket s"
  "receiveBuffer (access_hw a s) = receiveBuffer s"
  "hwErr (access_hw a s) = (hwErr s \<or> opFails (hw s) (trace s @ [a]))"
  by (simp_all add: access_hw_def)

lemma Error_access_hw: "neverFails (hw s) \<Longrightarrow> Error (access_hw a s) = Error s"
  by (simp add: Error_def neverFails_def)

lemma mode_fields:
  assumes "mode s = (m, s')"
  shows "hw s' = hw s" and "m = regValue (hw s) (trace s) RegOpMode"
    and "trace s' = trace s @ [RegRead RegOpMode m]"
    and "neverFails (hw s) \<Longrightarrow> Error s' = Error s"
  using assms by (auto simp: mode_def ReadRegister_def Let_def Error_def neverFails_def)

lemma finishTX_never_returns:
  assumes "finishTX s n = Some y"
    and "neverFails (hw s)" and "neverStandby (hw s)" and "\<not> Error s"
  shows False
  using assms
proof (induction rule: finishTX.raw_induct [rotated 1, consumes 1])
  case (1 f s n y)
  obtain m s' where ms: "mode s = (m, s')" by (cases "mode s")
  from mode_fields [OF ms] "1.prems"
  have h: "hw s' = hw s" and e: "\<not> Error s'" and m: "m \<noteq> StandbyMode"
    by (auto simp: neverStandby_def)
  from "1.hyps" ms m "1.prems" have "f s' n = Some y" by simp
  from "1.IH" [OF this] h e "1.prems" show ?case by simp
qed

lemma finishTX_stuck:
  "neverFails (hw s) \<Longrightarrow> neverStandby (hw s) \<Longrightarrow> \<not> Error s \<Longrightarrow> finishTX s n = None"
  using finishTX_never_returns [of s n] by (cases "finishTX s n") auto

lemma fifoThresholdExceeded_fields:
  assumes "fifoThresholdExceeded s = (b, s')"
  shows "hw s' = hw s"
    and "b = (regValue (hw s) (trace s) RegIrqFlags2 AND FifoLevel \<noteq> 0)"
    and "s' = access_hw (RegRead RegIrqFlags2 (regValue (hw s) (trace s) RegIrqFlags2)) s"
  using assms by (auto simp: fifoThresholdExceeded_def ReadRegister_def Let_def)

lemma awaitRoom_keeps:
  assumes "awaitRoom s a = Some y"
  shows "hw (snd y) = hw s \<and> (neverFails (hw s) \<longrightarrow> Error (snd y) = Error s)"
  using assms
proof (induction rule: awaitRoom.raw_induct [rotated 1, consumes 1])
  case (1 f s a y)
  show ?case
  proof (cases "Error s")
    case True
    with "1.hyps" show ?thesis by auto
  next
    case False
    obtain b s' where bs: "fifoThresholdExceeded s = (b, s')"
      by (cases "fifoThresholdExceeded s")
    note fs = fifoThresholdExceeded_fields [OF bs]
    have e: "neverFails (hw s) \<longrightarrow> Error s' = Error s"
      by (simp add: fs(3) Error_access_hw)
    show ?thesis
    proof (cases b)
      case True
      with "1.hyps" False bs have "f s' a = Some y" by simp
      from "1.IH" [OF this] fs(1) e show ?thesis by simp
    next
      case nb: False
      with "1.hyps" False bs have "y = (fifoSize - fifoThreshold, s')" by simp
      with fs(1) e show ?thesis by simp
    qed
  qed
qed

lemma transmitLoop_keeps:
  assumes "transmitLoop s d a = Some y"
  shows "hw (snd y) = hw s \<and> (neverFails (hw s) \<longrightarrow> Error (snd y) = Error s)"
  using assms
proof (induction rule: transmitLoop.raw_induct [rotated 1, consumes 1])
  case (1 f s d a y)
  show ?case
  proof (cases "Error s")
    case True
    with "1.hyps" show ?thesis by auto
  next
    case False
    define a1 where "a1 = (if length d < a then length d else a)"
    define s1 where "s1 = WriteBurst RegFifo (take a1 d) s"
    have h1: "hw s1 = hw s" and e1: "neverFails (hw s) \<longrightarrow> Error s1 = Error s"
      by (simp_all add: s1_def WriteBurst_def Error_access_hw)
    show ?thesis
    proof (cases "length (drop a1 d) = 0")
      case True
      with "1.hyps" False have "y = (a1, s1)"
        by (simp add: Let_def a1_def s1_def)
      with h1 e1 show ?thesis by simp
    next
      case more: False
      with "1.hyps" False
      have "Option.bind (awaitRoom s1 a1) (\<lambda>(a2, s2). f s2 (drop a1 d) a2) = Some y"
        by (simp add: Let_def a1_def s1_def)
      then obtain a2 s2 where ar: "awaitRoom s1 a1 = Some (a2, s2)"
        and rec: "f s2 (drop a1 d) a2 = Some y"
        by (auto simp: bind_eq_Some_conv)
      from awaitRoom_keeps [OF ar] have h2: "hw s2 = hw s1"
        and e2: "neverFails (hw s1) \<longrightarrow> Error s2 = Error s1" by simp_all
      from "1.IH" [OF rec] h1 h2 e1 e2 show ?thesis by simp
    qed
  qed
qed

lemma Send_never_returns:
  assumes "\<not> Error s" and "length data \<le> 110" and "110 < length (txPacket s)"
    and nf: "neverFails (hw s)" and ns: "neverStandby (hw s)"
  shows "Send s data = None"
proof -
  define s2 where "s2 = s\<lparr>txPacket := (copy_go (txPacket s) data)[length data := 0]\<rparr>"
  define s5 where "s5 = WriteRegister RegAutoModes
      (EnterConditionFifoNotEmpty OR ExitConditionFifoEmpty OR IntermediateModeTx)
      (setMode StandbyMode (clearFIFO s2))"
  have l: "length (copy_go (txPacket s) data) = length (txPacket s)"
    using assms(2,3) by (simp add: copy_go_def Let_def)
  have h5: "hw s5 = hw s" and e5: "\<not> Error s5"
    using assms(1) nf
    by (simp_all add: s5_def s2_def WriteRegister_def setMode_def clearFIFO_def Error_def neverFails_def)
  have "transmit s5 p = None" for p
  proof (cases "transmitLoop s5 p fifoSize")
    case None
    then show ?thesis by (simp add: transmit_def)
  next
    case (Some y)
    from transmitLoop_keeps [OF Some] h5 e5 nf ns
    have "finishTX (snd y) (fst y) = None"
      by (intro finishTX_stuck) auto
    with Some show ?thesis by (cases y) (simp add: transmit_def)
  qed
  then show ?thesis
    using assms(1,2,3) l
    by (simp add: Send_def maxPacketSize_def Let_def s5_def s2_def)
qed

lemma fifoReads_append [simp]: "fifoReads (t @ u) = fifoReads t @ fifoReads u"
  by (simp add: fifoReads_def)

lemma fifoReads_Nil [simp]: "fifoReads [] = []"
  by (simp add: fifoReads_def)

lemma fifoReads_Cons [simp]: "fifoReads (a # t) = fifoReadOf a @ fifoReads t"
  by (simp add: fifoReads_def)

lemma emptyPolls_append [simp]: "emptyPolls (t @ u) = emptyPolls t + emptyPolls u"
  by (simp add: emptyPolls_def)

lemma emptyPolls_Nil [simp]: "emptyPolls [] = 0"
  by (simp add: emptyPolls_def)

lemma emptyPolls_Cons [simp]: "emptyPolls (a # t) = emptyPollOf a + emptyPolls t"
  by (simp add: emptyPolls_def)

lemma registers_distinct [simp]:
  "RegIrqFlags2 \<noteq> RegFifo" "RegFifo \<noteq> RegIrqFlags2" "RegOpMode \<noteq> RegFifo" "RegFifo \<noteq> RegOpMode"
  "RegOpMode \<noteq> RegIrqFlags2" "RegIrqFlags2 \<noteq> RegOpMode"
  by (simp_all add: RegIrqFlags2_def RegFifo_def RegOpMode_def)

lemma fifoEmpty_fields:
  assumes "fifoEmpty s = (b, s1)"
  shows "s1 = access_hw (RegRead RegIrqFlags2 (regValue (hw s) (trace s) RegIrqFlags2)) s"
    and "b = (regValue (hw s) (trace s) RegIrqFlags2 AND FifoNotEmpty = 0)"
  using assms by (auto simp: fifoEmpty_def ReadRegister_def Let_def)

lemma ReadRegister_fields:
  assumes "ReadRegister a s = (c, s2)"
  shows "s2 = access_hw (RegRead a c) s" and "c = regValue (hw s) (trace s) a"
  using assms by (auto simp: ReadRegister_def Let_def)

lemma setMode_fields [simp]:
  "hw (setMode m s) = hw s"
  "trace (setMode m s) = trace s @ [RegWrite RegOpMode m]"
  "opMode (setMode m s) = m"
  "receiveBuffer (setMode m s) = receiveBuffer s"
  "txPacket (setMode m s) = txPacket s"
  "err (setMode m s) = err s"
  "hwErr (setMode m s) = (hwErr s \<or> opFails (hw s) (trace s @ [RegWrite RegOpMode m]))"
  by (simp_all add: setMode_def WriteRegister_def)

lemma setMode_sticky: "Error s \<Longrightarrow> Error (setMode m s)"
  by (auto simp: Error_def)

lemma finishRX_fields:
  assumes "finishRX s rssi = (p, r, s')"
  shows "r = rssi" and "trace s' = trace s @ [RegWrite RegOpMode StandbyMode]"
    and "hw s' = hw s" and "receiveBuffer s' = []" and "opMode s' = StandbyMode"
  using assms by (auto simp: finishRX_def Let_def split: if_splits)

text \<open>What a run of the headered loop that returns has done.\<close>

lemma receiveRadioHeadLoop_zero_length:
  assumes "receiveRadioHeadLoop s rssi timeout len = Some y"
  shows "fst (snd y) = rssi \<and>
    (\<exists>t. trace (snd (snd y)) = trace s @ t \<and>
       (len = 0 \<or> (len = -1 \<and> take 1 (fifoReads t) = [0]) \<longrightarrow>
          fst y = None \<and>
          (Error (snd (snd y)) \<or>
             (1 \<le> emptyPolls t \<and> timeout \<le> (int (emptyPolls t) - 1) * byteDuration))))"
  using assms
proof (induction rule: receiveRadioHeadLoop.raw_induct [rotated 1, consumes 1])
  case (1 f s rssi timeout len y)
  show ?case
  proof (cases "Error s")
    case True
    with "1.hyps" have "y = (None, rssi, s)" by simp
    with True show ?thesis by simp
  next
    case noerr: False
    obtain b s1 where fe: "fifoEmpty s = (b, s1)" by (cases "fifoEmpty s")
    define v where "v = regValue (hw s) (trace s) RegIrqFlags2"
    from fifoEmpty_fields [OF fe]
    have s1: "s1 = access_hw (RegRead RegIrqFlags2 v) s" and b: "b = (v AND FifoNotEmpty = 0)"
      by (simp_all add: v_def)
    have t1: "trace s1 = trace s @ [RegRead RegIrqFlags2 v]" by (simp add: s1)
    show ?thesis
    proof (cases b)
      case True
      show ?thesis
      proof (cases "timeout \<le> 0")
        case True
        with "1.hyps" noerr fe \<open>b\<close> have y: "y = (None, rssi, s1)" by simp
        have "emptyPolls [RegRead RegIrqFlags2 v] = 1" using \<open>b\<close> b by simp
        with y t1 True show ?thesis by (intro conjI exI [of _ "[RegRead RegIrqFlags2 v]"]) simp_all
      next
        case False
        with "1.hyps" noerr fe \<open>b\<close> have "f s1 rssi (timeout - byteDuration) len = Some y" by simp
        from "1.IH" [OF this] obtain t' where r: "fst (snd y) = rssi"
          and t': "trace (snd (snd y)) = trace s1 @ t'"
          and c: "len = 0 \<or> (len = -1 \<and> take 1 (fifoReads t') = [0]) \<longrightarrow>
            fst y = None \<and> (Error (snd (snd y)) \<or>
              (1 \<le> emptyPolls t' \<and> timeout - byteDuration \<le> (int (emptyPolls t') - 1) * byteDuration))"
          by blast
        have e: "emptyPolls (RegRead RegIrqFlags2 v # t') = Suc (emptyPolls t')"
          using \<open>b\<close> b by simp
        have "trace (snd (snd y)) = trace s @ (RegRead RegIrqFlags2 v # t')"
          using t' t1 by simp
        moreover have "fifoReads (RegRead RegIrqFlags2 v # t') = fifoReads t'" by simp
        moreover have "timeout - byteDuration \<le> (int (emptyPolls t') - 1) * byteDuration
            \<Longrightarrow> timeout \<le> (int (Suc (emptyPolls t')) - 1) * byteDuration"
          by (simp add: algebra_simps)
        ultimately show ?thesis using r c e
          by (intro conjI exI [of _ "RegRead RegIrqFlags2 v # t'"]) auto
      qed
    next
      case nonempty: False
      obtain c s2 where rr: "ReadRegister RegFifo s1 = (c, s2)" by (cases "ReadRegister RegFifo s1")
      from ReadRegister_fields [OF rr] have s2: "s2 = access_hw (RegRead RegFifo c) s1" by simp
      have t2: "trace s2 = trace s @ [RegRead RegIrqFlags2 v, RegRead RegFifo c]"
        by (simp add: s2 t1)
      have ep: "emptyPolls (RegRead RegIrqFlags2 v # RegRead RegFifo c # u) = emptyPolls u" for u
        using nonempty b by simp
      have fr: "fifoReads (RegRead RegIrqFlags2 v # RegRead RegFifo c # u) = c # fifoReads u" for u
        by simp
      show ?thesis
      proof (cases "Error s2")
        case True
        with "1.hyps" noerr fe nonempty rr have "y = (None, rssi, s2)" by simp
        with True t2 show ?thesis by simp
      next
        case ok2: False
        show ?thesis
        proof (cases "len = -1")
          case True
          with "1.hyps" noerr fe nonempty rr ok2 have "f s2 rssi timeout (uint c) = Some y" by simp
          from "1.IH" [OF this] obtain t' where r: "fst (snd y) = rssi"
            and t': "trace (snd (snd y)) = trace s2 @ t'"
            and c: "uint c = 0 \<longrightarrow>
              fst y = None \<and> (Error (snd (snd y)) \<or>
                (1 \<le> emptyPolls t' \<and> timeout \<le> (int (emptyPolls t') - 1) * byteDuration))"
            by blast
          have "trace (snd (snd y)) = trace s @ (RegRead RegIrqFlags2 v # RegRead RegFifo c # t')"
            using t' t2 by simp
          then show ?thesis using r c True ep [of t'] fr [of t']
            by (intro conjI exI [of _ "RegRead RegIrqFlags2 v # RegRead RegFifo c # t'"]) auto
        next
          case False
          define s3 where "s3 = s2\<lparr>err := False, receiveBuffer := receiveBuffer s2 @ [c]\<rparr>"
          have t3: "trace s3 = trace s2" by (simp add: s3_def)
          show ?thesis
          proof (cases "int (length (receiveBuffer s3)) = len")
            case True
            then have l: "len \<noteq> 0" by (auto simp: s3_def)
            from True "1.hyps" noerr fe nonempty rr ok2 False have y: "y = finishRX s3 rssi"
              by (simp add: s3_def Let_def)
            obtain p r s' where f: "finishRX s3 rssi = (p, r, s')" by (cases "finishRX s3 rssi")
            from finishRX_fields [OF f] y f t3 t2 l False show ?thesis by simp
          next
            case ne: False
            with "1.hyps" noerr fe nonempty rr ok2 False have "f s3 rssi timeout len = Some y"
              by (simp add: s3_def Let_def)
            from "1.IH" [OF this] obtain t' where r: "fst (snd y) = rssi"
              and t': "trace (snd (snd y)) = trace s3 @ t'"
              and c: "len = 0 \<longrightarrow>
                fst y = None \<and> (Error (snd (snd y)) \<or>
                  (1 \<le> emptyPolls t' \<and> timeout \<le> (int (emptyPolls t') - 1) * byteDuration))"
              by blast
            have "trace (snd (snd y)) = trace s @ (RegRead RegIrqFlags2 v # RegRead RegFifo c # t')"
              using t' t2 t3 by simp
            then show ?thesis using r c False ep [of t'] fr [of t']
              by (intro conjI exI [of _ "RegRead RegIrqFlags2 v # RegRead RegFifo c # t'"]) auto
          qed
        qed
      qed
    qed
  qed
qed

section \<open>The transmit pipeline\<close>

lemma fifoBursts_simps [simp]:
  "fifoBursts [] = []"
  "fifoBursts (a # t) = burstOf a @ fifoBursts t"
  "fifoBursts (t @ u) = fifoBursts t @ fifoBursts u"
  by (simp_all add: fifoBursts_def)

text \<open>The threshold poll returns once the chip reports room.\<close>

lemma awaitRoom_returns:
  assumes "neverFails (hw s)" and "\<not> Error s"
    and "regValue (hw s) (polls (hw s) RegIrqFlags2 (trace s) n) RegIrqFlags2 AND FifoLevel = 0"
  shows "\<exists>s'. awaitRoom s a = Some (fifoSize - fifoThreshold, s') \<and> hw s' = hw s \<and> \<not> Error s'
           \<and> fifoBursts (trace s') = fifoBursts (trace s)"
  using assms
proof (induction n arbitrary: s)
  case 0
  define v where "v = regValue (hw s) (trace s) RegIrqFlags2"
  define s1 where "s1 = access_hw (RegRead RegIrqFlags2 v) s"
  have f: "fifoThresholdExceeded s = (False, s1)"
    using "0.prems"(3) by (simp add: fifoThresholdExceeded_def ReadRegister_def Let_def v_def s1_def)
  have "awaitRoom s a = Some (fifoSize - fifoThreshold, s1)"
    using "0.prems"(2) f by (subst awaitRoom.simps) simp
  moreover have "hw s1 = hw s" "\<not> Error s1" "fifoBursts (trace s1) = fifoBursts (trace s)"
    using "0.prems"(1,2) by (simp_all add: s1_def Error_access_hw)
  ultimately show ?case by blast
next
  case (Suc n)
  define v where "v = regValue (hw s) (trace s) RegIrqFlags2"
  define s1 where "s1 = access_hw (RegRead RegIrqFlags2 v) s"
  have f: "fifoThresholdExceeded s = (v AND FifoLevel \<noteq> 0, s1)"
    by (simp add: fifoThresholdExceeded_def ReadRegister_def Let_def v_def s1_def)
  have k: "hw s1 = hw s" "\<not> Error s1" "fifoBursts (trace s1) = fifoBursts (trace s)"
    using Suc.prems(1,2) by (simp_all add: s1_def Error_access_hw)
  show ?case
  proof (cases "v AND FifoLevel = 0")
    case True
    then have "awaitRoom s a = Some (fifoSize - fifoThreshold, s1)"
      using Suc.prems(2) f by (subst awaitRoom.simps) simp
    with k show ?thesis by blast
  next
    case False
    then have u: "awaitRoom s a = awaitRoom s1 a"
      using Suc.prems(2) f by (subst awaitRoom.simps) simp
    have "polls (hw s) RegIrqFlags2 (trace s) (Suc n) = polls (hw s1) RegIrqFlags2 (trace s1) n"
      by (simp add: s1_def v_def)
    with Suc.prems(3) k(1)
    have "regValue (hw s1) (polls (hw s1) RegIrqFlags2 (trace s1) n) RegIrqFlags2 AND FifoLevel = 0"
      by simp
    from Suc.IH [OF _ k(2) this] Suc.prems(1) k u show ?thesis by auto
  qed
qed

text \<open>The wait for Standby returns once the chip reports it.\<close>

lemma finishTX_returns:
  assumes "neverFails (hw s)" and "\<not> Error s"
    and "regValue (hw s) (polls (hw s) RegOpMode (trace s) n) RegOpMode = StandbyMode"
  shows "\<exists>s'. finishTX s k = Some s' \<and> hw s' = hw s \<and> \<not> Error s'
           \<and> fifoBursts (trace s') = fifoBursts (trace s)"
  using assms
proof (induction n arbitrary: s)
  case 0
  obtain m s1 where ms: "mode s = (m, s1)" by (cases "mode s")
  note mf = mode_fields [OF ms]
  from mf(2) "0.prems"(3) have "m = StandbyMode" by simp
  then have "finishTX s k = Some s1"
    using "0.prems"(2) ms by (subst finishTX.simps) simp
  moreover have "hw s1 = hw s" "\<not> Error s1" "fifoBursts (trace s1) = fifoBursts (trace s)"
    using "0.prems"(1,2) mf by simp_all
  ultimately show ?case by blast
next
  case (Suc n)
  obtain m s1 where ms: "mode s = (m, s1)" by (cases "mode s")
  note mf = mode_fields [OF ms]
  have k1: "hw s1 = hw s" "\<not> Error s1" "fifoBursts (trace s1) = fifoBursts (trace s)"
    using Suc.prems(1,2) mf by simp_all
  show ?case
  proof (cases "m = StandbyMode")
    case True
    then have "finishTX s k = Some s1"
      using Suc.prems(2) ms by (subst finishTX.simps) simp
    with k1 show ?thesis by blast
  next
    case False
    then have u: "finishTX s k = finishTX s1 k"
      using Suc.prems(2) ms by (subst finishTX.simps) simp
    have "polls (hw s) RegOpMode (trace s) (Suc n) = polls (hw s1) RegOpMode (trace s1) n"
      using mf by simp
    with Suc.prems(3) k1(1)
    have "regValue (hw s1) (polls (hw s1) RegOpMode (trace s1) n) RegOpMode = StandbyMode"
      by simp
    from Suc.IH [OF _ k1(2) this] Suc.prems(1) k1 u show ?thesis by auto
  qed
qed

text \<open>On a chip that never fails and eventually has room, the chunk loop writes all of \<open>data\<close>.\<close>

lemma transmitLoop_returns:
  assumes "neverFails (hw s)" and "roomEventually (hw s)" and "\<not> Error s" and "0 < avail"
  shows "\<exists>a' s' chunks. transmitLoop s data avail = Some (a', s') \<and> hw s' = hw s \<and> \<not> Error s'
           \<and> fifoBursts (trace s') = fifoBursts (trace s) @ chunks
           \<and> concat chunks = data \<and> chunks \<noteq> [] \<and> length (hd chunks) \<le> avail
           \<and> (\<forall>c \<in> set (tl chunks). length c \<le> fifoSize - fifoThreshold)"
  using assms
proof (induction "length data" arbitrary: s data avail rule: less_induct)
  case less
  define a1 where "a1 = (if length data < avail then length data else avail)"
  define s1 where "s1 = WriteBurst RegFifo (take a1 data) s"
  have k1: "hw s1 = hw s" "\<not> Error s1"
    "fifoBursts (trace s1) = fifoBursts (trace s) @ [take a1 data]"
    using less.prems(1,3) by (simp_all add: s1_def WriteBurst_def Error_access_hw)
  have la: "length (take a1 data) \<le> avail" by (simp add: a1_def)
  show ?case
  proof (cases "length (drop a1 data) = 0")
    case True
    then have "transmitLoop s data avail = Some (a1, s1)"
      using less.prems(3) by (subst transmitLoop.simps) (simp add: Let_def a1_def s1_def)
    moreover from True have "concat [take a1 data] = data" by simp
    ultimately show ?thesis using k1 la
      by (intro exI [of _ a1] exI [of _ s1] exI [of _ "[take a1 data]"]) simp
  next
    case False
    then have pos: "0 < a1" and shorter: "length (drop a1 data) < length data"
      using less.prems(4) by (auto simp: a1_def split: if_splits)
    from less.prems(2) k1(1) obtain n where
      "regValue (hw s1) (polls (hw s1) RegIrqFlags2 (trace s1) n) RegIrqFlags2 AND FifoLevel = 0"
      by (auto simp: roomEventually_def)
    from awaitRoom_returns [OF _ k1(2) this, of a1] less.prems(1) k1(1)
    obtain s2 where ar: "awaitRoom s1 a1 = Some (fifoSize - fifoThreshold, s2)"
      and k2: "hw s2 = hw s1" "\<not> Error s2" "fifoBursts (trace s2) = fifoBursts (trace s1)"
      by auto
    have u: "transmitLoop s data avail = transmitLoop s2 (drop a1 data) (fifoSize - fifoThreshold)"
      using less.prems(3) False ar
      by (subst transmitLoop.simps) (simp add: Let_def a1_def s1_def)
    have "0 < fifoSize - fifoThreshold" by (simp add: fifoSize_def fifoThreshold_def)
    from less.hyps [OF shorter _ _ k2(2) this] less.prems(1,2) k1(1) k2(1)
    obtain a' s' chunks where
      r: "transmitLoop s2 (drop a1 data) (fifoSize - fifoThreshold) = Some (a', s')"
      and k': "hw s' = hw s2" "\<not> Error s'"
        "fifoBursts (trace s') = fifoBursts (trace s2) @ chunks"
        "concat chunks = drop a1 data" "chunks \<noteq> []"
        "length (hd chunks) \<le> fifoSize - fifoThreshold"
        "\<forall>c \<in> set (tl chunks). length c \<le> fifoSize - fifoThreshold"
      by auto
    have all: "\<forall>c \<in> set chunks. length c \<le> fifoSize - fifoThreshold"
      using k'(5,6,7) by (cases chunks) auto
    show ?thesis
      using u r k' k1 k2 la all
      by (intro exI [of _ a'] exI [of _ s'] exI [of _ "take a1 data # chunks"]) simp
  qed
qed

lemma mode_sticky: "mode s = (m, s') \<Longrightarrow> Error s \<Longrightarrow> Error s'"
  by (auto simp: mode_def ReadRegister_def Let_def Error_def)

text \<open>Whatever the chip does: what a returning threshold poll, chunk loop and wait have done.\<close>

lemma awaitRoom_partial:
  assumes "awaitRoom s a = Some y"
  shows "(Error s \<longrightarrow> Error (snd y)) \<and> (\<not> Error (snd y) \<longrightarrow> fst y = fifoSize - fifoThreshold)
       \<and> fifoBursts (trace (snd y)) = fifoBursts (trace s)"
  using assms
proof (induction rule: awaitRoom.raw_induct [rotated 1, consumes 1])
  case (1 f s a y)
  show ?case
  proof (cases "Error s")
    case True
    with "1.hyps" show ?thesis by auto
  next
    case False
    obtain b s1 where bs: "fifoThresholdExceeded s = (b, s1)"
      by (cases "fifoThresholdExceeded s")
    note fs = fifoThresholdExceeded_fields [OF bs]
    have t: "fifoBursts (trace s1) = fifoBursts (trace s)" by (simp add: fs(3))
    show ?thesis
    proof (cases b)
      case True
      with "1.hyps" False bs have "f s1 a = Some y" by simp
      from "1.IH" [OF this] t False show ?thesis by simp
    next
      case nb: False
      with "1.hyps" False bs have "y = (fifoSize - fifoThreshold, s1)" by simp
      with t False show ?thesis by simp
    qed
  qed
qed

lemma finishTX_partial:
  assumes "finishTX s k = Some s'"
  shows "(Error s \<longrightarrow> Error s') \<and> fifoBursts (trace s') = fifoBursts (trace s)"
  using assms
proof (induction rule: finishTX.raw_induct [rotated 1, consumes 1])
  case (1 f s k s')
  show ?case
  proof (cases "Error s")
    case True
    with "1.hyps" show ?thesis by auto
  next
    case False
    obtain m s1 where ms: "mode s = (m, s1)" by (cases "mode s")
    note mf = mode_fields [OF ms]
    have t: "fifoBursts (trace s1) = fifoBursts (trace s)" by (simp add: mf(3))
    show ?thesis
    proof (cases "m = StandbyMode")
      case True
      with "1.hyps" False ms have "s' = s1" by simp
      with t False show ?thesis by simp
    next
      case ns: False
      with "1.hyps" False ms have "f s1 k = Some s'" by simp
      from "1.IH" [OF this] t False show ?thesis by simp
    qed
  qed
qed

lemma transmitLoop_partial:
  assumes "transmitLoop s d a = Some y"
  shows "(Error s \<longrightarrow> Error (snd y))
       \<and> (0 < a \<and> \<not> Error (snd y) \<longrightarrow>
            (\<exists>chunks. fifoBursts (trace (snd y)) = fifoBursts (trace s) @ chunks
               \<and> concat chunks = d \<and> chunks \<noteq> [] \<and> length (hd chunks) \<le> a
               \<and> (\<forall>c \<in> set (tl chunks). length c \<le> fifoSize - fifoThreshold)))"
  using assms
proof (induction rule: transmitLoop.raw_induct [rotated 1, consumes 1])
  case (1 f s d a y)
  show ?case
  proof (cases "Error s")
    case True
    with "1.hyps" show ?thesis by auto
  next
    case False
    define a1 where "a1 = (if length d < a then length d else a)"
    define s1 where "s1 = WriteBurst RegFifo (take a1 d) s"
    have t1: "fifoBursts (trace s1) = fifoBursts (trace s) @ [take a1 d]"
      by (simp add: s1_def WriteBurst_def)
    have la: "length (take a1 d) \<le> a" by (simp add: a1_def)
    show ?thesis
    proof (cases "length (drop a1 d) = 0")
      case True
      with "1.hyps" False have y: "y = (a1, s1)"
        by (simp add: Let_def a1_def s1_def)
      from True have "concat [take a1 d] = d" by simp
      with y t1 la False show ?thesis
        by (auto intro!: exI [of _ "[take a1 d]"])
    next
      case more: False
      with "1.hyps" False
      have "Option.bind (awaitRoom s1 a1) (\<lambda>(a2, s2). f s2 (drop a1 d) a2) = Some y"
        by (simp add: Let_def a1_def s1_def)
      then obtain a2 s2 where ar: "awaitRoom s1 a1 = Some (a2, s2)"
        and rec: "f s2 (drop a1 d) a2 = Some y"
        by (auto simp: bind_eq_Some_conv)
      from awaitRoom_partial [OF ar]
      have a2: "\<not> Error s2 \<longrightarrow> a2 = fifoSize - fifoThreshold"
        and t2: "fifoBursts (trace s2) = fifoBursts (trace s1)" by simp_all
      note ih = "1.IH" [OF rec]
      show ?thesis
      proof (intro conjI impI)
        show "Error s \<Longrightarrow> Error (snd y)" using False by simp
      next
        assume h: "0 < a \<and> \<not> Error (snd y)"
        with ih have ne2: "\<not> Error s2" by blast
        with a2 have a2': "a2 = fifoSize - fifoThreshold" by simp
        then have "0 < a2" by (simp add: fifoSize_def fifoThreshold_def)
        with ih h obtain chunks where
          c: "fifoBursts (trace (snd y)) = fifoBursts (trace s2) @ chunks"
            "concat chunks = drop a1 d" "chunks \<noteq> []" "length (hd chunks) \<le> a2"
            "\<forall>c \<in> set (tl chunks). length c \<le> fifoSize - fifoThreshold"
          by blast
        have all: "\<forall>c \<in> set chunks. length c \<le> fifoSize - fifoThreshold"
          using c(3,4,5) a2' by (cases chunks) auto
        show "\<exists>chunks. fifoBursts (trace (snd y)) = fifoBursts (trace s) @ chunks
               \<and> concat chunks = d \<and> chunks \<noteq> [] \<and> length (hd chunks) \<le> a
               \<and> (\<forall>c \<in> set (tl chunks). length c \<le> fifoSize - fifoThreshold)"
          using c t1 t2 la all
          by (intro exI [of _ "take a1 d # chunks"]) simp
      qed
    qed
  qed
qed

text \<open>The packet \<open>Send\<close> builds in the transmit buffer.\<close>

lemma raw_packet:
  assumes "length data < length tx"
  shows "take (length data + 1) ((copy_go tx data)[length data := 0]) = data @ [0]"
proof -
  have c: "copy_go tx data = data @ drop (length data) tx"
    using assms by (simp add: copy_go_def Let_def min_def)
  have "drop (length data) tx \<noteq> []" using assms by simp
  then obtain x xs where d: "drop (length data) tx = x # xs" by (cases "drop (length data) tx") auto
  show ?thesis by (simp add: c d list_update_append)
qed

lemma chunk_bounds:
  assumes "chunks \<noteq> []" and "length (hd chunks) \<le> fifoSize"
    and "\<forall>c \<in> set (tl chunks). length c \<le> fifoSize - fifoThreshold"
  shows "(\<forall>c \<in> set chunks. length c \<le> 66) \<and> (\<forall>c \<in> set (tl chunks). length c \<le> 46)"
  using assms by (cases chunks) (auto simp: fifoSize_def fifoThreshold_def)

lemma sendSetup_fields:
  "hw (sendSetup s data) = hw s"
  "fifoBursts (trace (sendSetup s data)) = fifoBursts (trace s)"
  "neverFails (hw s) \<Longrightarrow> Error (sendSetup s data) = Error s"
  by (simp_all add: sendSetup_def WriteRegister_def setMode_def clearFIFO_def Error_def
      neverFails_def)

lemma Send_unfold:
  assumes "\<not> Error s" and "length data \<le> 110" and "length data < length (txPacket s)"
  shows "Send s data = map_option (\<lambda>s6. Returned (setMode StandbyMode s6))
                         (transmit (sendSetup s data) (data @ [0]))"
proof -
  have l: "length (copy_go (txPacket s) data) = length (txPacket s)"
    using assms(3) by (simp add: copy_go_def Let_def)
  show ?thesis
    using assms l raw_packet [OF assms(3)]
    by (simp add: Send_def maxPacketSize_def Let_def sendSetup_def)
qed

lemma Send_Returned_bounds:
  assumes "\<not> Error s" and "Send s data = Some (Returned s')"
  shows "length data \<le> 110 \<and> length data < length (txPacket s)"
proof -
  have l: "length (copy_go (txPacket s) data) = length (txPacket s)"
    by (simp add: copy_go_def Let_def)
  show ?thesis
    using assms l by (auto simp: Send_def maxPacketSize_def Let_def split: if_splits)
qed

lemma Send_partial:
  assumes "\<not> Error s" and "Send s data = Some (Returned s')" and "\<not> Error s'"
  shows "\<exists>chunks. fifoBursts (trace s') = fifoBursts (trace s) @ chunks
           \<and> concat chunks = data @ [0]
           \<and> (\<forall>c \<in> set chunks. length c \<le> 66) \<and> (\<forall>c \<in> set (tl chunks). length c \<le> 46)"
proof -
  from Send_Returned_bounds [OF assms(1,2)]
  have b: "length data \<le> 110" "length data < length (txPacket s)" by simp_all
  from assms(2) Send_unfold [OF assms(1) b] obtain s6 where
    t: "transmit (sendSetup s data) (data @ [0]) = Some s6" and s': "s' = setMode StandbyMode s6"
    by auto
  from t obtain a s5 where tl: "transmitLoop (sendSetup s data) (data @ [0]) fifoSize = Some (a, s5)"
    and ft: "finishTX s5 a = Some s6"
    by (auto simp: transmit_def bind_eq_Some_conv)
  from assms(3) s' have e6: "\<not> Error s6" using setMode_sticky by blast
  with finishTX_partial [OF ft] have e5: "\<not> Error s5"
    and t6: "fifoBursts (trace s6) = fifoBursts (trace s5)" by auto
  have "0 < fifoSize" by (simp add: fifoSize_def)
  with transmitLoop_partial [OF tl] e5 obtain chunks where
    c: "fifoBursts (trace s5) = fifoBursts (trace (sendSetup s data)) @ chunks"
      "concat chunks = data @ [0]" "chunks \<noteq> []" "length (hd chunks) \<le> fifoSize"
      "\<forall>c \<in> set (tl chunks). length c \<le> fifoSize - fifoThreshold"
    by auto
  have "fifoBursts (trace s') = fifoBursts (trace s) @ chunks"
    using c(1) t6 s' by (simp add: sendSetup_fields)
  with c(2) chunk_bounds [OF c(3,4,5)] show ?thesis by blast
qed

lemma Send_returns:
  assumes "\<not> Error s" and "length data \<le> 110" and "110 < length (txPacket s)"
    and nf: "neverFails (hw s)" and "roomEventually (hw s)" and "standbyEventually (hw s)"
  shows "\<exists>s'. Send s data = Some (Returned s') \<and> \<not> Error s'"
proof -
  have lt: "length data < length (txPacket s)" using assms(2,3) by simp
  have h0: "hw (sendSetup s data) = hw s" and e0: "\<not> Error (sendSetup s data)"
    using assms(1) nf by (simp_all add: sendSetup_fields)
  have "0 < fifoSize" by (simp add: fifoSize_def)
  from transmitLoop_returns [OF _ _ e0 this, of "data @ [0]"] h0 nf assms(5)
  obtain a s5 where tl: "transmitLoop (sendSetup s data) (data @ [0]) fifoSize = Some (a, s5)"
    and h5: "hw s5 = hw s" and e5: "\<not> Error s5"
    by auto
  from assms(6) h5 obtain n where
    "regValue (hw s5) (polls (hw s5) RegOpMode (trace s5) n) RegOpMode = StandbyMode"
    by (auto simp: standbyEventually_def)
  from finishTX_returns [OF _ e5 this, of a] nf h5
  obtain s6 where ft: "finishTX s5 a = Some s6" and h6: "hw s6 = hw s" and e6: "\<not> Error s6"
    by auto
  have t: "transmit (sendSetup s data) (data @ [0]) = Some s6"
    using tl ft by (simp add: transmit_def)
  have "\<not> Error (setMode StandbyMode s6)"
    using e6 h6 nf by (simp add: setMode_def WriteRegister_def Error_def neverFails_def)
  with t Send_unfold [OF assms(1,2) lt] show ?thesis by simp
qed

lemma header_store:
  assumes "5 \<le> length p0"
  shows "take 5 (p0[0 := a, 1 := b, 2 := c, 3 := d, 4 := e]) = [a, b, c, d, e]"
    and "drop 5 (p0[0 := a, 1 := b, 2 := c, 3 := d, 4 := e]) = drop 5 p0"
proof -
  from assms have "\<exists>x0 x1 x2 x3 x4 r. p0 = x0 # x1 # x2 # x3 # x4 # r"
    by (auto simp: Suc_le_length_iff eval_nat_numeral)
  then obtain x0 x1 x2 x3 x4 r where p: "p0 = x0 # x1 # x2 # x3 # x4 # r" by blast
  show "take 5 (p0[0 := a, 1 := b, 2 := c, 3 := d, 4 := e]) = [a, b, c, d, e]"
    by (simp add: p eval_nat_numeral)
  show "drop 5 (p0[0 := a, 1 := b, 2 := c, 3 := d, 4 := e]) = drop 5 p0"
    by (simp add: p eval_nat_numeral)
qed

lemma radioHeadSetup_fields:
  "hw (radioHeadSetup s p) = hw s"
  "fifoBursts (trace (radioHeadSetup s p)) = fifoBursts (trace s)"
  "txPacket (radioHeadSetup s p) = p"
  by (simp_all add: radioHeadSetup_def WriteRegister_def setMode_def clearFIFO_def)

lemma SendRadioHead_unfold:
  assumes "\<not> Error s" and "length data \<le> 110" and "5 \<le> length (txPacket s)"
  shows "SendRadioHead s data to from ident flags
           = map_option (\<lambda>s5. Returned (setMode StandbyMode s5))
               (transmit
                  (radioHeadSetup s
                     (copy_go [of_nat (length data) + 4, to, from, ident, flags] data
                        @ drop 5 (txPacket s)))
                  (copy_go [of_nat (length data) + 4, to, from, ident, flags] data
                     @ drop 5 (txPacket s)))"
  using assms header_store [OF assms(3)]
  by (simp add: SendRadioHead_def maxPacketSize_def Let_def radioHeadSetup_def
      WriteRegister_def setMode_def clearFIFO_def)

text \<open>
  What \<open>SendRadioHead\<close> puts into the FIFO when it returns without a latched error: the
  five header bytes with the first bytes of the payload copied over them, then the rest of
  the transmit buffer as it was.
\<close>

lemma SendRadioHead_partial:
  assumes "\<not> Error s" and "SendRadioHead s data to from ident flags = Some (Returned s')"
    and "\<not> Error s'"
  shows "\<exists>chunks. fifoBursts (trace s') = fifoBursts (trace s) @ chunks
           \<and> concat chunks = copy_go [of_nat (length data) + 4, to, from, ident, flags] data
                              @ drop 5 (txPacket s)"
proof -
  define packet where "packet = copy_go [of_nat (length data) + 4, to, from, ident, flags] data
                                  @ drop 5 (txPacket s)"
  from assms(1,2) have b: "length data \<le> 110" "5 \<le> length (txPacket s)"
    by (auto simp: SendRadioHead_def maxPacketSize_def split: if_splits)
  from assms(2) SendRadioHead_unfold [OF assms(1) b, of to "from" ident flags] obtain s6 where
    t: "transmit (radioHeadSetup s packet) packet = Some s6" and s': "s' = setMode StandbyMode s6"
    by (auto simp: packet_def)
  from t obtain a s5 where tl: "transmitLoop (radioHeadSetup s packet) packet fifoSize = Some (a, s5)"
    and ft: "finishTX s5 a = Some s6"
    by (auto simp: transmit_def bind_eq_Some_conv)
  from assms(3) s' have e6: "\<not> Error s6" using setMode_sticky by blast
  with finishTX_partial [OF ft] have e5: "\<not> Error s5"
    and t6: "fifoBursts (trace s6) = fifoBursts (trace s5)" by auto
  have "0 < fifoSize" by (simp add: fifoSize_def)
  with transmitLoop_partial [OF tl] e5 obtain chunks where
    c: "fifoBursts (trace s5) = fifoBursts (trace (radioHeadSetup s packet)) @ chunks"
      "concat chunks = packet"
    by auto
  have "fifoBursts (trace s') = fifoBursts (trace s) @ chunks"
    using c(1) t6 s' by (simp add: radioHeadSetup_fields)
  with c(2) show ?thesis unfolding packet_def by blast
qed

lemma idleHw_cooperates:
  "neverFails idleHw" "roomEventually idleHw" "standbyEventually idleHw"
proof -
  show "neverFails idleHw" by (simp add: neverFails_def idleHw_def)
  have "regValue idleHw (polls idleHw RegIrqFlags2 t 0) RegIrqFlags2 AND FifoLevel = 0" for t
    by (simp add: idleHw_def)
  then show "roomEventually idleHw" unfolding roomEventually_def by blast
  have "regValue idleHw (polls idleHw RegOpMode t 0) RegOpMode = StandbyMode" for t
    by (simp add: idleHw_def)
  then show "standbyEventually idleHw" unfolding standbyEventually_def by blast
qed

lemma drainHw_cooperates:
  "neverFails drainHw" "roomEventually drainHw" "standbyEventually drainHw"
proof -
  show "neverFails drainHw" by (simp add: neverFails_def drainHw_def)
  have "regValue drainHw (polls drainHw RegIrqFlags2 t 2) RegIrqFlags2 AND FifoLevel = 0" for t
    by (simp add: drainHw_def eval_nat_numeral)
  then show "roomEventually drainHw" unfolding roomEventually_def by blast
  have "regValue drainHw (polls drainHw RegOpMode t 2) RegOpMode = StandbyMode" for t
    by (simp add: drainHw_def eval_nat_numeral)
  then show "standbyEventually drainHw" unfolding standbyEventually_def by blast
qed

text \<open>A Send of 110 bytes on that chip: two bursts, with the polls between and after them.\<close>

lemma long_send_run:
  "(case Send (newRadio drainHw) (replicate 110 7) of
      Some (Returned s') \<Rightarrow>
        trace s' = [RegWrite RegIrqFlags2 FifoOverrun, RegWrite RegOpMode StandbyMode,
                    RegWrite RegAutoModes 0x27,
                    BurstWrite RegFifo (replicate 66 7),
                    RegRead RegIrqFlags2 FifoLevel, RegRead RegIrqFlags2 FifoLevel,
                    RegRead RegIrqFlags2 0,
                    BurstWrite RegFifo (replicate 44 7 @ [0]),
                    RegRead RegOpMode TransmitterMode, RegRead RegOpMode TransmitterMode,
                    RegRead RegOpMode StandbyMode,
                    RegWrite RegOpMode StandbyMode]
    | _ \<Rightarrow> False)"
  by code_simp

section \<open>Receiving from a chip that holds a frame\<close>

lemma feedHw_fields [simp]:
  "neverFails (feedHw bs)"
  "regValue (feedHw bs) t RegIrqFlags2 = (if length (fifoReads t) < length bs then FifoNotEmpty else 0)"
  "regValue (feedHw bs) t RegFifo = (if length (fifoReads t) < length bs then bs ! length (fifoReads t) else 0)"
  "rssiValue (feedHw bs) t = -70"
  by (simp_all add: feedHw_def neverFails_def)

lemma FifoNotEmpty_set [simp]: "FifoNotEmpty \<noteq> 0"
  by (simp add: FifoNotEmpty_def)

text \<open>One turn of a receive loop on a chip whose FIFO still holds a byte.\<close>

lemma feed_step:
  assumes "hw s = feedHw bs" and "\<not> Error s" and "length (fifoReads (trace s)) = k"
    and "drop k bs = c # rest"
  shows "\<exists>s1 s2. fifoEmpty s = (False, s1) \<and> ReadRegister RegFifo s1 = (c, s2)
           \<and> hw s2 = hw s \<and> \<not> Error s2 \<and> length (fifoReads (trace s2)) = Suc k
           \<and> drop (Suc k) bs = rest \<and> receiveBuffer s2 = receiveBuffer s \<and> err s2 = err s
           \<and> hwErr s2 = hwErr s"
proof -
  from assms(4) have kl: "k < length bs" and c: "bs ! k = c"
    by (auto simp: nth_via_drop intro: ccontr)
  have r: "drop (Suc k) bs = rest" using assms(4) by (metis drop_Suc tl_drop list.sel(3))
  define s1 where "s1 = access_hw (RegRead RegIrqFlags2 FifoNotEmpty) s"
  define s2 where "s2 = access_hw (RegRead RegFifo c) s1"
  have "fifoEmpty s = (False, s1)"
    using assms(1,3) kl by (simp add: fifoEmpty_def ReadRegister_def Let_def s1_def)
  moreover have "ReadRegister RegFifo s1 = (c, s2)"
    using assms(1,3) kl c by (simp add: ReadRegister_def Let_def s1_def s2_def)
  moreover have "hw s2 = hw s" "length (fifoReads (trace s2)) = Suc k"
    "receiveBuffer s2 = receiveBuffer s" "err s2 = err s"
    using assms(3) by (simp_all add: s1_def s2_def)
  moreover have "hwErr s2 = hwErr s"
    using assms(1) feedHw_fields(1) [of bs] by (simp add: s1_def s2_def neverFails_def)
  moreover from this assms(2) \<open>err s2 = err s\<close> have "\<not> Error s2" by (simp add: Error_def)
  ultimately show ?thesis using r by blast
qed

text \<open>The raw loop reads up to the first zero byte and hands over to \<open>finishRX\<close>.\<close>

lemma receiveLoop_feed:
  assumes "hw s = feedHw bs" and "\<not> Error s" and "length (fifoReads (trace s)) = k"
    and "drop k bs = ys @ 0 # zs" and "0 \<notin> set ys"
  shows "\<exists>s2. receiveLoop s rssi timeout = Some (finishRX s2 rssi) \<and> hw s2 = hw s
           \<and> \<not> Error s2 \<and> receiveBuffer s2 = receiveBuffer s @ ys"
  using assms
proof (induction ys arbitrary: s k)
  case Nil
  from feed_step [OF Nil.prems(1,2,3), of 0 zs] Nil.prems(4)
  obtain s1 s2 where st: "fifoEmpty s = (False, s1)" "ReadRegister RegFifo s1 = (0, s2)"
    "hw s2 = hw s" "\<not> Error s2" "receiveBuffer s2 = receiveBuffer s"
    by auto
  have "receiveLoop s rssi timeout = Some (finishRX s2 rssi)"
    using Nil.prems(2) st by (subst receiveLoop.simps) simp
  with st show ?case by auto
next
  case (Cons y ys)
  from feed_step [OF Cons.prems(1,2,3), of y "ys @ 0 # zs"] Cons.prems(4)
  obtain s1 s2 where st: "fifoEmpty s = (False, s1)" "ReadRegister RegFifo s1 = (y, s2)"
    "hw s2 = hw s" "\<not> Error s2" "length (fifoReads (trace s2)) = Suc k"
    "drop (Suc k) bs = ys @ 0 # zs" "receiveBuffer s2 = receiveBuffer s" "hwErr s2 = hwErr s"
    by auto
  define s3 where "s3 = s2\<lparr>err := False, receiveBuffer := receiveBuffer s2 @ [y]\<rparr>"
  from Cons.prems(5) have y: "y \<noteq> 0" by auto
  have u: "receiveLoop s rssi timeout = receiveLoop s3 rssi timeout"
    using Cons.prems(2) st y by (subst receiveLoop.simps) (simp add: s3_def)
  have k3: "hw s3 = feedHw bs" "\<not> Error s3" "length (fifoReads (trace s3)) = Suc k"
    using st Cons.prems(1) by (simp_all add: s3_def Error_def)
  from Cons.prems(5) have "0 \<notin> set ys" by simp
  from Cons.IH [OF k3 st(6) this] obtain s4 where
    "receiveLoop s3 rssi timeout = Some (finishRX s4 rssi)" "hw s4 = hw s3" "\<not> Error s4"
    "receiveBuffer s4 = receiveBuffer s3 @ ys"
    by blast
  with u st k3 Cons.prems(1) show ?case by (auto simp: s3_def)
qed

lemma finishRX_delivers:
  assumes "neverFails (hw s)" and "\<not> Error s"
  shows "\<exists>s'. finishRX s rssi = (if receiveBuffer s = [] then None else Some (receiveBuffer s), rssi, s')
           \<and> \<not> Error s' \<and> receiveBuffer s' = [] \<and> hw s' = hw s"
  using assms
  by (auto simp: finishRX_def Let_def Error_def neverFails_def)

text \<open>
  \<open>Receive\<close> on a chip that holds a raw frame returns what the accumulator held at entry
  followed by the payload.
\<close>

lemma Receive_feed_acc:
  assumes "0 \<notin> set payload" and "\<not> Error rx"
    and "fifoReads (trace rx) = []" and "hw rx = feedHw (payload @ 0 # rest)"
  shows "\<exists>rssi rx'. Receive rx timeout
           = Some (if receiveBuffer rx @ payload = [] then None
                   else Some (receiveBuffer rx @ payload), rssi, rx')"
proof -
  define s4 where "s4 = snd (ReadRSSI (AwaitInterrupt timeout (setMode ReceiverMode
                     (WriteRegister RegAutoModes 0 rx))))"
  define r0 where "r0 = fst (ReadRSSI (AwaitInterrupt timeout (setMode ReceiverMode
                     (WriteRegister RegAutoModes 0 rx))))"
  have k4: "hw s4 = feedHw (payload @ 0 # rest)" "length (fifoReads (trace s4)) = 0"
    "receiveBuffer s4 = receiveBuffer rx"
    using assms(3,4)
    by (simp_all add: s4_def ReadRSSI_def Let_def AwaitInterrupt_def WriteRegister_def)
  have "hwErr s4 = hwErr rx" "err s4 = err rx"
    using assms(4) feedHw_fields(1) [of "payload @ 0 # rest"]
    by (simp_all add: s4_def ReadRSSI_def Let_def AwaitInterrupt_def WriteRegister_def
        neverFails_def)
  with assms(2) have e4: "\<not> Error s4" by (simp add: Error_def)
  have "drop 0 (payload @ 0 # rest) = payload @ 0 # rest" by simp
  from receiveLoop_feed [OF k4(1) e4 k4(2) this assms(1), of r0 timeout] k4
  obtain s5 where l: "receiveLoop s4 r0 timeout = Some (finishRX s5 r0)"
    and k5: "hw s5 = feedHw (payload @ 0 # rest)" "\<not> Error s5"
      "receiveBuffer s5 = receiveBuffer rx @ payload"
    by auto
  from finishRX_delivers [OF _ k5(2), of r0] k5(1,3)
  obtain s6 where f: "finishRX s5 r0
      = (if receiveBuffer rx @ payload = [] then None
         else Some (receiveBuffer rx @ payload), r0, s6)"
    by auto
  have rs: "ReadRSSI (AwaitInterrupt timeout (setMode ReceiverMode
               (WriteRegister RegAutoModes 0 rx))) = (r0, s4)"
    by (simp add: r0_def s4_def)
  have "Receive rx timeout
          = Some (if receiveBuffer rx @ payload = [] then None
                  else Some (receiveBuffer rx @ payload), r0, setMode SleepMode s6)"
    using assms(2) l f by (simp add: Receive_def Let_def rs)
  then show ?thesis by blast
qed

lemma Receive_feed:
  assumes "0 \<notin> set payload" and "\<not> Error rx" and "receiveBuffer rx = []"
    and "fifoReads (trace rx) = []" and "hw rx = feedHw (payload @ 0 # rest)"
  shows "\<exists>p rssi rx'. Receive rx timeout = Some (p, rssi, rx')
           \<and> p = (if payload = [] then None else Some payload) \<and> bytes_of p = payload"
  using Receive_feed_acc [OF assms(1,2,4,5), of timeout] assms(3) by auto

text \<open>The headered loop, with the length known, on a chip that holds the rest of the frame.\<close>

lemma receiveRadioHeadLoop_feed:
  assumes "hw s = feedHw bs" and "\<not> Error s" and "length (fifoReads (trace s)) = k"
    and "drop k bs = ys @ zs" and "ys \<noteq> []"
    and "len = int (length (receiveBuffer s) + length ys)"
  shows "\<exists>s2. receiveRadioHeadLoop s rssi timeout len = Some (finishRX s2 rssi) \<and> hw s2 = hw s
           \<and> \<not> Error s2 \<and> receiveBuffer s2 = receiveBuffer s @ ys"
  using assms
proof (induction ys arbitrary: s k)
  case Nil
  then show ?case by simp
next
  case (Cons y ys)
  from feed_step [OF Cons.prems(1,2,3), of y "ys @ zs"] Cons.prems(4)
  obtain s1 s2 where st: "fifoEmpty s = (False, s1)" "ReadRegister RegFifo s1 = (y, s2)"
    "hw s2 = hw s" "\<not> Error s2" "length (fifoReads (trace s2)) = Suc k"
    "drop (Suc k) bs = ys @ zs" "receiveBuffer s2 = receiveBuffer s" "hwErr s2 = hwErr s"
    by auto
  define s3 where "s3 = s2\<lparr>err := False, receiveBuffer := receiveBuffer s2 @ [y]\<rparr>"
  have k3: "hw s3 = feedHw bs" "\<not> Error s3" "length (fifoReads (trace s3)) = Suc k"
    "receiveBuffer s3 = receiveBuffer s @ [y]" "hw s3 = hw s"
    using st Cons.prems(1) by (simp_all add: s3_def Error_def)
  have l: "len \<noteq> -1" using Cons.prems(6) by simp
  show ?case
  proof (cases "ys = []")
    case True
    with Cons.prems(6) k3(4) have "int (length (receiveBuffer s3)) = len" by simp
    then have "receiveRadioHeadLoop s rssi timeout len = Some (finishRX s3 rssi)"
      using Cons.prems(2) st l
      by (subst receiveRadioHeadLoop.simps) (simp add: s3_def Let_def)
    with k3 True show ?thesis by auto
  next
    case False
    with Cons.prems(6) k3(4) have ne: "int (length (receiveBuffer s3)) \<noteq> len" by simp
    have u: "receiveRadioHeadLoop s rssi timeout len = receiveRadioHeadLoop s3 rssi timeout len"
      using Cons.prems(2) st l ne
      by (subst receiveRadioHeadLoop.simps) (simp add: s3_def Let_def)
    have "len = int (length (receiveBuffer s3) + length ys)"
      using Cons.prems(6) k3(4) by simp
    from Cons.IH [OF k3(1,2,3) st(6) False this] u k3 show ?thesis by auto
  qed
qed

lemma length_byte: "n \<le> 110 \<Longrightarrow> uint (of_nat n + 4 :: byte) = int n + 4"
proof -
  assume "n \<le> 110"
  then have "n + 4 < 2 ^ LENGTH(8)" by simp
  then have "unat (of_nat (n + 4) :: byte) = n + 4" by (rule of_nat_inverse [OF refl])
  moreover have "(of_nat (n + 4) :: byte) = of_nat n + 4" by simp
  ultimately show ?thesis by (simp add: uint_nat)
qed

text \<open>
  The headered delimiter is sound: fed a well-formed frame, \<open>ReceiveRadioHead\<close> returns
  the four header bytes followed by the payload.
\<close>

lemma ReceiveRadioHead_feed:
  assumes "length payload \<le> 110" and "\<not> Error rx" and "receiveBuffer rx = []"
    and "fifoReads (trace rx) = []"
    and "hw rx = feedHw ((of_nat (length payload) + 4) # to # from # ident # flags # payload @ rest)"
  shows "\<exists>rssi rx'. ReceiveRadioHead rx timeout
           = Some (Some (to # from # ident # flags # payload), rssi, rx')"
proof -
  define bs where "bs = (of_nat (length payload) + 4) # to # from # ident # flags # payload @ rest"
  define s4 where "s4 = snd (ReadRSSI (AwaitInterrupt timeout (setMode ReceiverMode
                     (WriteRegister RegAutoModes 0 rx))))"
  define r0 where "r0 = fst (ReadRSSI (AwaitInterrupt timeout (setMode ReceiverMode
                     (WriteRegister RegAutoModes 0 rx))))"
  have rs: "ReadRSSI (AwaitInterrupt timeout (setMode ReceiverMode
               (WriteRegister RegAutoModes 0 rx))) = (r0, s4)"
    by (simp add: r0_def s4_def)
  have k4: "hw s4 = feedHw bs" "length (fifoReads (trace s4)) = 0" "receiveBuffer s4 = []"
    using assms(3,4,5)
    by (simp_all add: s4_def bs_def ReadRSSI_def Let_def AwaitInterrupt_def WriteRegister_def)
  have "hwErr s4 = hwErr rx" "err s4 = err rx"
    using assms(5) feedHw_fields(1) [of bs]
    by (simp_all add: s4_def bs_def ReadRSSI_def Let_def AwaitInterrupt_def WriteRegister_def
        neverFails_def)
  with assms(2) have e4: "\<not> Error s4" by (simp add: Error_def)
  have "drop 0 bs = (of_nat (length payload) + 4) # to # from # ident # flags # payload @ rest"
    by (simp add: bs_def)
  from feed_step [OF k4(1) e4 k4(2) this]
  obtain s1 s2 where st: "fifoEmpty s4 = (False, s1)"
    "ReadRegister RegFifo s1 = (of_nat (length payload) + 4, s2)"
    "hw s2 = hw s4" "\<not> Error s2" "length (fifoReads (trace s2)) = Suc 0"
    "drop (Suc 0) bs = to # from # ident # flags # payload @ rest"
    "receiveBuffer s2 = receiveBuffer s4"
    by auto
  have u: "receiveRadioHeadLoop s4 r0 timeout (-1)
             = receiveRadioHeadLoop s2 r0 timeout (int (length payload) + 4)"
    using e4 st length_byte [OF assms(1)]
    by (subst receiveRadioHeadLoop.simps) simp
  have d: "drop (Suc 0) bs = (to # from # ident # flags # payload) @ rest"
    using st(6) by simp
  have "int (length payload) + 4
          = int (length (receiveBuffer s2) + length (to # from # ident # flags # payload))"
    using st(7) k4(3) by simp
  from receiveRadioHeadLoop_feed [OF _ st(4,5) d _ this, where rssi = r0 and timeout = timeout]
    st(3) k4(1)
  obtain s5 where l: "receiveRadioHeadLoop s2 r0 timeout (int (length payload) + 4)
                        = Some (finishRX s5 r0)"
    and k5: "hw s5 = feedHw bs" "\<not> Error s5"
      "receiveBuffer s5 = receiveBuffer s2 @ to # from # ident # flags # payload"
    by auto
  from finishRX_delivers [OF _ k5(2), of r0] k5(1,3) st(7) k4(3)
  obtain s6 where "finishRX s5 r0 = (Some (to # from # ident # flags # payload), r0, s6)"
    by auto
  with u l assms(2) show ?thesis
    by (simp add: ReceiveRadioHead_def Let_def rs)
qed

text \<open>
  With timeout 0 and fewer bytes in the FIFO than the length byte announced, the headered
  loop runs the FIFO dry and gives up.
\<close>

lemma receiveRadioHeadLoop_starved:
  assumes "hw s = feedHw bs" and "\<not> Error s" and "length (fifoReads (trace s)) = k"
    and "k \<le> length bs" and "timeout \<le> 0"
    and "int (length (receiveBuffer s) + (length bs - k)) < len"
  shows "\<exists>s'. receiveRadioHeadLoop s rssi timeout len = Some (None, rssi, s')
           \<and> receiveBuffer s' = receiveBuffer s @ drop k bs"
  using assms
proof (induction "length bs - k" arbitrary: s k)
  case 0
  define s1 where "s1 = access_hw (RegRead RegIrqFlags2 0) s"
  have "fifoEmpty s = (True, s1)"
    using "0.hyps" "0.prems"(1,3,4) by (simp add: fifoEmpty_def ReadRegister_def Let_def s1_def)
  then have "receiveRadioHeadLoop s rssi timeout len = Some (None, rssi, s1)"
    using "0.prems"(2,5) by (subst receiveRadioHeadLoop.simps) simp
  moreover have "receiveBuffer s1 = receiveBuffer s @ drop k bs"
    using "0.hyps" "0.prems"(4) by (simp add: s1_def)
  ultimately show ?case by blast
next
  case (Suc n)
  then have kl: "k < length bs" by simp
  then have d: "drop k bs = bs ! k # drop (Suc k) bs" by (simp add: Cons_nth_drop_Suc)
  from feed_step [OF Suc.prems(1,2,3) d]
  obtain s1 s2 where st: "fifoEmpty s = (False, s1)" "ReadRegister RegFifo s1 = (bs ! k, s2)"
    "hw s2 = hw s" "\<not> Error s2" "length (fifoReads (trace s2)) = Suc k"
    "receiveBuffer s2 = receiveBuffer s" "hwErr s2 = hwErr s"
    by auto
  define s3 where "s3 = s2\<lparr>err := False, receiveBuffer := receiveBuffer s2 @ [bs ! k]\<rparr>"
  have k3: "hw s3 = feedHw bs" "\<not> Error s3" "length (fifoReads (trace s3)) = Suc k"
    "receiveBuffer s3 = receiveBuffer s @ [bs ! k]"
    using st Suc.prems(1) by (simp_all add: s3_def Error_def)
  have l: "len \<noteq> -1" using Suc.prems(6) by simp
  have ne: "int (length (receiveBuffer s3)) \<noteq> len" using Suc.prems(6) kl k3(4) by simp
  have u: "receiveRadioHeadLoop s rssi timeout len = receiveRadioHeadLoop s3 rssi timeout len"
    using Suc.prems(2) st l ne
    by (subst receiveRadioHeadLoop.simps) (simp add: s3_def Let_def)
  have "n = length bs - Suc k" using Suc.hyps(2) by simp
  moreover have "Suc k \<le> length bs" using kl by simp
  moreover have "int (length (receiveBuffer s3) + (length bs - Suc k)) < len"
    using Suc.prems(6) kl k3(4) by simp
  ultimately obtain s' where
    "receiveRadioHeadLoop s3 rssi timeout len = Some (None, rssi, s')"
    "receiveBuffer s' = receiveBuffer s3 @ drop (Suc k) bs"
    using Suc.hyps(1) [of "Suc k" s3] k3(1,2,3) Suc.prems(5) by blast
  with u k3(4) d show ?case by simp
qed

lemma ReceiveRadioHead_starved:
  assumes "\<not> Error rx" and "receiveBuffer rx = []" and "fifoReads (trace rx) = []"
    and "hw rx = feedHw (c # rest)" and "int (length rest) < uint c"
  shows "\<exists>rssi rx'. ReceiveRadioHead rx 0 = Some (None, rssi, rx') \<and> receiveBuffer rx' = rest"
proof -
  define s4 where "s4 = snd (ReadRSSI (AwaitInterrupt 0 (setMode ReceiverMode
                     (WriteRegister RegAutoModes 0 rx))))"
  define r0 where "r0 = fst (ReadRSSI (AwaitInterrupt 0 (setMode ReceiverMode
                     (WriteRegister RegAutoModes 0 rx))))"
  have rs: "ReadRSSI (AwaitInterrupt 0 (setMode ReceiverMode
               (WriteRegister RegAutoModes 0 rx))) = (r0, s4)"
    by (simp add: r0_def s4_def)
  have k4: "hw s4 = feedHw (c # rest)" "length (fifoReads (trace s4)) = 0" "receiveBuffer s4 = []"
    using assms(2,3,4)
    by (simp_all add: s4_def ReadRSSI_def Let_def AwaitInterrupt_def WriteRegister_def)
  have "hwErr s4 = hwErr rx" "err s4 = err rx"
    using assms(4) feedHw_fields(1) [of "c # rest"]
    by (simp_all add: s4_def ReadRSSI_def Let_def AwaitInterrupt_def WriteRegister_def
        neverFails_def)
  with assms(1) have e4: "\<not> Error s4" by (simp add: Error_def)
  have "drop 0 (c # rest) = c # rest" by simp
  from feed_step [OF k4(1) e4 k4(2) this]
  obtain s1 s2 where st: "fifoEmpty s4 = (False, s1)" "ReadRegister RegFifo s1 = (c, s2)"
    "hw s2 = hw s4" "\<not> Error s2" "length (fifoReads (trace s2)) = Suc 0"
    "receiveBuffer s2 = receiveBuffer s4"
    by auto
  have u: "receiveRadioHeadLoop s4 r0 0 (-1) = receiveRadioHeadLoop s2 r0 0 (uint c)"
    using e4 st by (subst receiveRadioHeadLoop.simps) simp
  have "int (length (receiveBuffer s2) + (length (c # rest) - Suc 0)) < uint c"
    using assms(5) st(6) k4(3) by simp
  from receiveRadioHeadLoop_starved [OF _ st(4,5) _ _ this, where rssi = r0] st(3) k4(1)
  obtain s' where "receiveRadioHeadLoop s2 r0 0 (uint c) = Some (None, r0, s')"
    "receiveBuffer s' = receiveBuffer s2 @ drop (Suc 0) (c # rest)"
    by auto
  with u assms(1) st(6) k4(3) show ?thesis
    by (simp add: ReceiveRadioHead_def Let_def rs)
qed

section \<open>The headered send\<close>

text \<open>The run of the example of section 8 of the specification.\<close>

lemma zeros_110: "replicate 61 (0::byte) @ replicate 46 0 @ replicate 3 0 = replicate 110 0"
  by (simp flip: replicate_add)

lemma radiohead_send_run:
  "(case SendRadioHead (newRadio idleHw) [0xAA, 0xBB] 2 1 5 0 of
      Some (Returned s') \<Rightarrow>
        fifoBursts (trace s')
          = [[0xAA, 0xBB, 1, 5, 0] @ replicate 61 0, replicate 46 0, replicate 3 0]
    | _ \<Rightarrow> False)"
  by code_simp

text \<open>
  The earlier variant of \<open>SendRadioHead\<close> in radio.go, on the same input, writes the frame
  the specification describes.
\<close>

lemma polled_variant_run:
  "(case SendRadioHead_polled (newRadio sentHw) [0xAA, 0xBB] 2 1 5 0 of
      Some (Returned s') \<Rightarrow> fifoBursts (trace s') = [[6, 2, 1, 5, 0, 0xAA, 0xBB]]
    | _ \<Rightarrow> False)"
  by code_simp

text \<open>
  C1 asks that SendRadioHead write the length byte, to, from, id and flags, then the
  payload, and nothing else. On a fresh instance, SendRadioHead of the payload AA BB with
  to = 2, from = 1, id = 5, flags = 0 writes 115 bytes to the FIFO: AA BB 01 05 00 and 110
  zero bytes, not 06 02 01 05 00 AA BB. \<open>copy(r.txPacket[:5], data)\<close> copies the payload
  over the header, and \<open>r.transmit(r.txPacket)\<close> sends the whole buffer.
\<close>

theorem SendRadioHead_overwrites_header:
  "(case SendRadioHead (newRadio idleHw) [0xAA, 0xBB] 2 1 5 0 of
      Some (Returned s') \<Rightarrow>
        concat (fifoBursts (trace s')) = [0xAA, 0xBB, 1, 5, 0] @ replicate 110 0
        \<and> concat (fifoBursts (trace s')) \<noteq> [6, 2, 1, 5, 0, 0xAA, 0xBB]
    | _ \<Rightarrow> False)"
  using radiohead_send_run by (auto simp: zeros_110 split: option.splits outcome.splits)

text \<open>
  C2 asks that the bytes SendRadioHead produces, fed to ReceiveRadioHead, come back as
  to, from, id, flags and the payload. The bytes SendRadioHead writes for the payload
  AA BB start with AA, which ReceiveRadioHead takes for the length 170; the 114 bytes that
  follow do not reach it, and the call returns nil when the FIFO is empty.
\<close>

theorem headered_round_trip_fails:
  "(case SendRadioHead (newRadio idleHw) [0xAA, 0xBB] 2 1 5 0 of
      Some (Returned tx') \<Rightarrow>
        (case ReceiveRadioHead (newRadio (feedHw (concat (fifoBursts (trace tx'))))) 0 of
           Some (p, rssi, rx') \<Rightarrow> p = None \<and> p \<noteq> Some [2, 1, 5, 0, 0xAA, 0xBB]
         | None \<Rightarrow> False)
    | _ \<Rightarrow> False)"
proof -
  from radiohead_send_run obtain tx' where
    s: "SendRadioHead (newRadio idleHw) [0xAA, 0xBB] 2 1 5 0 = Some (Returned tx')"
    and w: "concat (fifoBursts (trace tx')) = 0xAA # ([0xBB, 1, 5, 0] @ replicate 110 0)"
    by (auto simp: zeros_110 split: option.splits outcome.splits)
  have "int (length ([0xBB, 1, 5, 0 :: byte] @ replicate 110 0)) < uint (0xAA :: byte)" by simp
  from ReceiveRadioHead_starved [OF _ _ _ _ this, of "newRadio (feedHw (concat (fifoBursts (trace tx'))))"]
  obtain rssi rx' where
    "ReceiveRadioHead (newRadio (feedHw (concat (fifoBursts (trace tx'))))) 0 = Some (None, rssi, rx')"
    by (auto simp: w newRadio_def Error_def)
  with s show ?thesis by simp
qed

section \<open>The raw send\<close>

text \<open>
  C3: for every payload of at most 110 bytes, Send on an instance with a clear error
  latch (and a transmit buffer that holds a maximal packet) writes to the FIFO exactly
  the payload followed by a zero byte, in bursts of at most 66 bytes, every burst after
  the first of at most 46 bytes. This holds on every hardware whenever the call returns
  with the latch still clear; and on a chip on which no access fails, the FIFO level
  eventually falls below the threshold and the mode eventually is Standby, the call does
  return with the latch clear.
\<close>

theorem Send_writes_terminated_payload:
  assumes "\<not> Error s" and "length data \<le> 110" and "110 < length (txPacket s)"
  shows "(\<forall>s'. Send s data = Some (Returned s') \<and> \<not> Error s' \<longrightarrow>
            (\<exists>chunks. fifoBursts (trace s') = fifoBursts (trace s) @ chunks
               \<and> concat chunks = data @ [0]
               \<and> (\<forall>c \<in> set chunks. length c \<le> 66)
               \<and> (\<forall>c \<in> set (tl chunks). length c \<le> 46)))
       \<and> (neverFails (hw s) \<and> roomEventually (hw s) \<and> standbyEventually (hw s) \<longrightarrow>
            (\<exists>s'. Send s data = Some (Returned s') \<and> \<not> Error s'))"
  using Send_partial [OF assms(1)] Send_returns [OF assms] by blast

theorem Send_writes_terminated_payload_witness:
  "\<not> Error (newRadio drainHw) \<and> length (replicate 110 (7::byte)) \<le> 110
   \<and> 110 < length (txPacket (newRadio drainHw))
   \<and> neverFails (hw (newRadio drainHw)) \<and> roomEventually (hw (newRadio drainHw))
   \<and> standbyEventually (hw (newRadio drainHw))
   \<and> (\<exists>s' chunks. Send (newRadio drainHw) (replicate 110 7) = Some (Returned s') \<and> \<not> Error s'
         \<and> fifoBursts (trace s') = fifoBursts (trace (newRadio drainHw)) @ chunks
         \<and> chunks = [replicate 66 7, replicate 44 7 @ [0]]
         \<and> concat chunks = replicate 110 7 @ [0]
         \<and> (\<forall>c \<in> set chunks. length c \<le> 66) \<and> (\<forall>c \<in> set (tl chunks). length c \<le> 46))"
proof -
  have e: "\<not> Error (newRadio drainHw)" by (simp add: Error_def newRadio_def)
  have l: "length (replicate 110 (7::byte)) \<le> 110" by simp
  have c: "110 < length (txPacket (newRadio drainHw))" by (simp add: newRadio_def)
  have h: "neverFails (hw (newRadio drainHw)) \<and> roomEventually (hw (newRadio drainHw))
             \<and> standbyEventually (hw (newRadio drainHw))"
    using drainHw_cooperates by (simp add: newRadio_def)
  note t = Send_writes_terminated_payload [OF e l c]
  from t h obtain s' where r: "Send (newRadio drainHw) (replicate 110 7) = Some (Returned s')"
    and e': "\<not> Error s'" by blast
  from t r e' obtain chunks where k:
    "fifoBursts (trace s') = fifoBursts (trace (newRadio drainHw)) @ chunks"
    "concat chunks = replicate 110 7 @ [0]"
    "\<forall>c \<in> set chunks. length c \<le> 66" "\<forall>c \<in> set (tl chunks). length c \<le> 46"
    by blast
  from long_send_run r have "fifoBursts (trace s') = [replicate 66 7, replicate 44 7 @ [0]]"
    by simp
  with k(1) have "chunks = [replicate 66 7, replicate 44 7 @ [0]]"
    by (simp add: newRadio_def)
  with e l c h r e' k show ?thesis by blast
qed

section \<open>The receive accumulator after an aborted receive\<close>

text \<open>
  C4 asks for an empty receive accumulator after every receive, also one that timed out.
  Receive with timeout 0 on a chip whose FIFO holds the single byte 0x41 returns nil and
  leaves that byte in the accumulator. The stale byte then corrupts the next headered
  packet: after a first ReceiveRadioHead saw the length byte 3 and the byte 1 and timed
  out, the frame 2, 9, 9 is returned by the second call as the packet 1, 9.
\<close>

theorem receive_timeout_keeps_partial_packet:
  "map_option (\<lambda>(p, r, s'). (p, receiveBuffer s')) (Receive (newRadio (feedHw [0x41])) 0)
     = Some (None, [0x41])
   \<and> Option.bind (ReceiveRadioHead (newRadio (laterHw [3, 1] [2, 9, 9])) 0)
       (\<lambda>(p1, r1, s1). map_option (\<lambda>(p2, r2, s2). (p1, receiveBuffer s1, p2))
          (ReceiveRadioHead s1 0))
     = Some (None, [1], Some [1, 9])"
  by code_simp

section \<open>The mode after a call\<close>

text \<open>
  C5, as stated, fails for a call entered with the latch already set: the guard at the
  top of Send returns before any mode change. A fresh radio on a chip whose accesses all
  fail is left latched and in Sleep mode by Receive; a Send on it returns with the mode
  still Sleep, not Standby.
\<close>

theorem latched_send_keeps_mode:
  "Receive (newRadio deadHw) 0 = Some (None, 0, latchedRadio)
   \<and> Error latchedRadio
   \<and> Send latchedRadio [1, 2, 3] = Some (Returned latchedRadio)
   \<and> opMode latchedRadio = SleepMode \<and> SleepMode \<noteq> StandbyMode"
  by (simp add: Receive_def Send_def Error_def newRadio_def deadHw_def latchedRadio_def
      WriteRegister_def setMode_def AwaitInterrupt_def ReadRSSI_def access_hw_def Let_def
      receiveLoop.simps SleepMode_def StandbyMode_def)

text \<open>
  C5, amended: after a Send or SendRadioHead call that was entered with a clear error
  latch returns, the instance's mode is Standby, and after such a Receive or
  ReceiveRadioHead call returns it is Sleep, whether the call succeeded, timed out or
  had a register operation fail on the way.
\<close>

theorem mode_after_started_call:
  assumes "\<not> Error s"
  shows "(Send s data = Some (Returned s') \<longrightarrow> opMode s' = StandbyMode)
       \<and> (SendRadioHead s data to from ident flags = Some (Returned s') \<longrightarrow> opMode s' = StandbyMode)
       \<and> (Receive s timeout = Some (p, rssi, s') \<longrightarrow> opMode s' = SleepMode)
       \<and> (ReceiveRadioHead s timeout = Some (p, rssi, s') \<longrightarrow> opMode s' = SleepMode)"
  using assms
  by (auto simp: Send_def SendRadioHead_def Receive_def ReceiveRadioHead_def Let_def
      split: if_splits prod.splits)

text \<open>Runs that succeed, time out, and fail on the way.\<close>

lemma runs_for_modes:
  "(case Send (newRadio idleHw) [1, 2, 3] of Some (Returned s') \<Rightarrow> \<not> Error s' | _ \<Rightarrow> False)"
  "(case Send (newRadio (flakyHw 5)) (replicate 100 7) of Some (Returned s') \<Rightarrow> Error s' | _ \<Rightarrow> False)"
  "(case SendRadioHead (newRadio idleHw) [1, 2, 3] 2 1 5 0 of Some (Returned s') \<Rightarrow> \<not> Error s' | _ \<Rightarrow> False)"
  "(case Receive (newRadio (feedHw [0x41])) 0 of Some (p, r, s') \<Rightarrow> p = None \<and> \<not> Error s' | _ \<Rightarrow> False)"
  "(case Receive (newRadio (flakyHw 7)) 0 of Some (p, r, s') \<Rightarrow> Error s' | _ \<Rightarrow> False)"
  "(case ReceiveRadioHead (newRadio (feedHw [6, 2, 1, 5, 0, 0xAA, 0xBB])) 0 of
      Some (p, r, s') \<Rightarrow> p = Some [2, 1, 5, 0, 0xAA, 0xBB] \<and> \<not> Error s' | _ \<Rightarrow> False)"
  by code_simp+

theorem mode_after_started_call_witness:
  "\<not> Error (newRadio idleHw) \<and> \<not> Error (newRadio (flakyHw 5))
   \<and> (\<exists>s'. Send (newRadio idleHw) [1, 2, 3] = Some (Returned s') \<and> opMode s' = StandbyMode)
   \<and> (\<exists>s'. Send (newRadio (flakyHw 5)) (replicate 100 7) = Some (Returned s') \<and> Error s'
          \<and> opMode s' = StandbyMode)
   \<and> (\<exists>s'. SendRadioHead (newRadio idleHw) [1, 2, 3] 2 1 5 0 = Some (Returned s')
          \<and> opMode s' = StandbyMode)
   \<and> (\<exists>r s'. Receive (newRadio (feedHw [0x41])) 0 = Some (None, r, s') \<and> opMode s' = SleepMode)
   \<and> (\<exists>p r s'. Receive (newRadio (flakyHw 7)) 0 = Some (p, r, s') \<and> Error s'
          \<and> opMode s' = SleepMode)
   \<and> (\<exists>r s'. ReceiveRadioHead (newRadio (feedHw [6, 2, 1, 5, 0, 0xAA, 0xBB])) 0
            = Some (Some [2, 1, 5, 0, 0xAA, 0xBB], r, s') \<and> opMode s' = SleepMode)"
proof -
  have e: "\<not> Error (newRadio h)" for h by (simp add: Error_def newRadio_def)
  from runs_for_modes(1) obtain s1 where
    r1: "Send (newRadio idleHw) [1, 2, 3] = Some (Returned s1)"
    by (auto split: option.splits outcome.splits)
  from runs_for_modes(2) obtain s2 where
    r2: "Send (newRadio (flakyHw 5)) (replicate 100 7) = Some (Returned s2)" and e2: "Error s2"
    by (auto split: option.splits outcome.splits)
  from runs_for_modes(3) obtain s3 where
    r3: "SendRadioHead (newRadio idleHw) [1, 2, 3] 2 1 5 0 = Some (Returned s3)"
    by (auto split: option.splits outcome.splits)
  from runs_for_modes(4) obtain q4 s4 where
    r4: "Receive (newRadio (feedHw [0x41])) 0 = Some (None, q4, s4)"
    by (auto split: option.splits)
  from runs_for_modes(5) obtain p5 q5 s5 where
    r5: "Receive (newRadio (flakyHw 7)) 0 = Some (p5, q5, s5)" and e5: "Error s5"
    by (auto split: option.splits)
  from runs_for_modes(6) obtain q6 s6 where
    r6: "ReceiveRadioHead (newRadio (feedHw [6, 2, 1, 5, 0, 0xAA, 0xBB])) 0
           = Some (Some [2, 1, 5, 0, 0xAA, 0xBB], q6, s6)"
    by (auto split: option.splits)
  have "opMode s1 = StandbyMode"
    using mode_after_started_call [OF e, where data = "[1, 2, 3]" and s' = s1] r1 by blast
  moreover have "opMode s2 = StandbyMode"
    using mode_after_started_call [OF e, where data = "replicate 100 7" and s' = s2] r2 by blast
  moreover have "opMode s3 = StandbyMode"
    using mode_after_started_call [OF e, where data = "[1, 2, 3]" and s' = s3] r3 by blast
  moreover have "opMode s4 = SleepMode"
    using mode_after_started_call [OF e, where s' = s4] r4 by blast
  moreover have "opMode s5 = SleepMode"
    using mode_after_started_call [OF e, where s' = s5] r5 by blast
  moreover have "opMode s6 = SleepMode"
    using mode_after_started_call [OF e, where s' = s6] r6 by blast
  ultimately show ?thesis using e r1 r2 e2 r3 r4 r5 e5 r6 by blast
qed

section \<open>The error latch\<close>

text \<open>
  C6: every public operation (Send, SendRadioHead, Receive, ReceiveRadioHead,
  SendAndReceive) called on an instance whose error latch is already set returns at
  once with the state, and so the access history, unchanged: no register is read or
  written. The receive-shaped operations return the nil packet and RSSI 0.
\<close>

theorem latched_error_makes_inert:
  assumes "Error s"
  shows "Send s data = Some (Returned s)
       \<and> SendRadioHead s data to from ident flags = Some (Returned s)
       \<and> Receive s timeout = Some (None, 0, s)
       \<and> ReceiveRadioHead s timeout = Some (None, 0, s)
       \<and> SendAndReceive s data timeout = Some (Returned (None, 0, s))"
  using assms
  by (simp add: Send_def SendRadioHead_def Receive_def ReceiveRadioHead_def
      SendAndReceive_def)

theorem latched_error_makes_inert_witness:
  "Error ((newRadio idleHw)\<lparr>hwErr := True\<rparr>)
   \<and> Send ((newRadio idleHw)\<lparr>hwErr := True\<rparr>) [1, 2, 3]
       = Some (Returned ((newRadio idleHw)\<lparr>hwErr := True\<rparr>))
   \<and> Receive ((newRadio idleHw)\<lparr>hwErr := True\<rparr>) 5000000
       = Some (None, 0, (newRadio idleHw)\<lparr>hwErr := True\<rparr>)
   \<and> trace ((newRadio idleHw)\<lparr>hwErr := True\<rparr>) = []"
proof -
  have e: "Error ((newRadio idleHw)\<lparr>hwErr := True\<rparr>)"
    by (simp add: Error_def)
  have t: "trace ((newRadio idleHw)\<lparr>hwErr := True\<rparr>) = []"
    by (simp add: newRadio_def)
  from latched_error_makes_inert [OF e, of "[1, 2, 3]" 0 0 0 0 5000000] e t
  show ?thesis by blast
qed

section \<open>The unbounded wait for Standby\<close>

text \<open>
  C7: the wait loop of finishTX has no bound. On a chip whose mode register never
  reports Standby and on which no register operation fails, finishTX never returns, and
  neither does a Send of an admissible payload. Such a chip exists: one that stays in
  Transmitter mode.
\<close>

theorem finishTX_unbounded_wait:
  assumes "\<not> Error s" and "neverFails (hw s)" and "neverStandby (hw s)"
  shows "finishTX s numBytes = None
       \<and> (length data \<le> 110 \<and> 110 < length (txPacket s) \<longrightarrow> Send s data = None)"
  using assms finishTX_stuck [of s numBytes] Send_never_returns [of s data] by blast

theorem finishTX_unbounded_wait_witness:
  "\<not> Error (newRadio stuckHw) \<and> neverFails (hw (newRadio stuckHw))
   \<and> neverStandby (hw (newRadio stuckHw))
   \<and> finishTX (newRadio stuckHw) 4 = None
   \<and> Send (newRadio stuckHw) [1, 2, 3] = None"
proof -
  have e: "\<not> Error (newRadio stuckHw)" by (simp add: Error_def newRadio_def)
  have f: "neverFails (hw (newRadio stuckHw))"
    by (simp add: neverFails_def newRadio_def stuckHw_def)
  have n: "neverStandby (hw (newRadio stuckHw))"
    by (simp add: neverStandby_def newRadio_def stuckHw_def TransmitterMode_def
        StandbyMode_def)
  have l: "length [1, 2, 3 :: byte] \<le> 110 \<and> 110 < length (txPacket (newRadio stuckHw))"
    by (simp add: newRadio_def)
  from finishTX_unbounded_wait [OF e f n, of 4 "[1, 2, 3]"] e f n l
  show ?thesis by blast
qed

section \<open>The raw round trip\<close>

text \<open>
  On a receiver whose accumulator is empty, the raw round trip holds: for every payload
  without a zero byte, Receive on a chip that holds the raw frame (the payload followed
  by a zero byte) returns a packet with exactly the bytes of the payload, and so it does
  when the chip holds the bytes that a Send of the payload, returning with a clear latch,
  has written to the FIFO. For the empty payload the returned slice is nil.
\<close>

lemma raw_round_trip:
  assumes "0 \<notin> set payload"
    and "\<not> Error rx" and "receiveBuffer rx = []" and "fifoReads (trace rx) = []"
  shows "(hw rx = feedHw (payload @ [0]) \<longrightarrow>
            (\<exists>p rssi rx'. Receive rx timeout = Some (p, rssi, rx')
               \<and> p = (if payload = [] then None else Some payload) \<and> bytes_of p = payload))
       \<and> (\<not> Error tx \<and> Send tx payload = Some (Returned tx') \<and> \<not> Error tx'
            \<and> hw rx = feedHw (concat (drop (length (fifoBursts (trace tx))) (fifoBursts (trace tx'))))
          \<longrightarrow> (\<exists>p rssi rx'. Receive rx timeout = Some (p, rssi, rx')
                 \<and> p = (if payload = [] then None else Some payload) \<and> bytes_of p = payload))"
proof (intro conjI impI)
  assume "hw rx = feedHw (payload @ [0])"
  with Receive_feed [OF assms, of "[]" timeout]
  show "\<exists>p rssi rx'. Receive rx timeout = Some (p, rssi, rx')
          \<and> p = (if payload = [] then None else Some payload) \<and> bytes_of p = payload" by simp
next
  assume a: "\<not> Error tx \<and> Send tx payload = Some (Returned tx') \<and> \<not> Error tx'
            \<and> hw rx = feedHw (concat (drop (length (fifoBursts (trace tx))) (fifoBursts (trace tx'))))"
  with Send_partial [of tx payload tx'] obtain chunks where
    "fifoBursts (trace tx') = fifoBursts (trace tx) @ chunks" "concat chunks = payload @ [0]"
    by blast
  with a have "hw rx = feedHw (payload @ [0])" by simp
  with Receive_feed [OF assms, of "[]" timeout]
  show "\<exists>p rssi rx'. Receive rx timeout = Some (p, rssi, rx')
          \<and> p = (if payload = [] then None else Some payload) \<and> bytes_of p = payload" by simp
qed

lemma raw_round_trip_example:
  "0 \<notin> set [0x48, 0x69 :: byte]
   \<and> \<not> Error (newRadio (feedHw ([0x48, 0x69] @ [0])))
   \<and> (\<exists>p rssi rx'. Receive (newRadio (feedHw ([0x48, 0x69] @ [0]))) 0 = Some (p, rssi, rx')
         \<and> bytes_of p = [0x48, 0x69])
   \<and> (\<exists>tx' p rssi rx'. Send (newRadio idleHw) [0x48, 0x69] = Some (Returned tx') \<and> \<not> Error tx'
         \<and> Receive (newRadio (feedHw (concat (drop (length (fifoBursts (trace (newRadio idleHw))))
                                                (fifoBursts (trace tx')))))) 0
             = Some (p, rssi, rx')
         \<and> bytes_of p = [0x48, 0x69])"
proof -
  have z: "0 \<notin> set [0x48, 0x69 :: byte]" by simp
  have e: "\<not> Error (newRadio h)" for h by (simp add: Error_def newRadio_def)
  have b: "receiveBuffer (newRadio h) = []" for h by (simp add: newRadio_def)
  have f: "fifoReads (trace (newRadio h)) = []" for h by (simp add: newRadio_def)
  have h: "hw (newRadio h) = h" for h by (simp add: newRadio_def)
  note rt = raw_round_trip [OF z e b f]
  have one: "\<exists>p rssi rx'. Receive (newRadio (feedHw ([0x48, 0x69] @ [0]))) 0 = Some (p, rssi, rx')
         \<and> bytes_of p = [0x48, 0x69]"
    using rt [of "feedHw ([0x48, 0x69] @ [0])" 0] h by blast
  have "\<exists>tx'. Send (newRadio idleHw) [0x48, 0x69] = Some (Returned tx') \<and> \<not> Error tx'"
    by (rule Send_returns) (simp_all add: Error_def newRadio_def idleHw_cooperates)
  then obtain tx' where s: "Send (newRadio idleHw) [0x48, 0x69] = Some (Returned tx')"
    and e': "\<not> Error tx'" by blast
  define wire where "wire = concat (drop (length (fifoBursts (trace (newRadio idleHw))))
                                      (fifoBursts (trace tx')))"
  have "\<exists>p rssi rx'. Receive (newRadio (feedHw wire)) 0 = Some (p, rssi, rx')
         \<and> bytes_of p = [0x48, 0x69]"
    using rt [of "feedHw wire" 0 "newRadio idleHw" tx'] h e s e' unfolding wire_def by blast
  with one z e s e' show ?thesis unfolding wire_def by blast
qed

text \<open>
  C8 asks that the raw frame a Send produces, fed to Receive, come back as the payload,
  for every payload without a zero byte. A receiver that has timed out in the middle of a
  packet keeps the bytes it had read, with the latch clear. A Send of the payload 48 69
  writes 48 69 00 to the FIFO; a receiver whose first Receive read the byte 41 and timed
  out, and whose chip then holds exactly 48 69 00, returns 41 48 69 from its second
  Receive, not 48 69.
\<close>

theorem raw_round_trip_after_timeout:
  "(case Send (newRadio idleHw) [0x48, 0x69] of
      Some (Returned tx') \<Rightarrow> concat (fifoBursts (trace tx')) = [0x48, 0x69, 0]
    | _ \<Rightarrow> False)
   \<and> Option.bind (Receive (newRadio (laterHw [0x41] [0x48, 0x69, 0])) 0)
       (\<lambda>(p1, r1, s1). map_option (\<lambda>(p2, r2, s2). (p1, Error s1, receiveBuffer s1, p2))
          (Receive s1 0))
     = Some (None, False, [0x41], Some [0x41, 0x48, 0x69])
   \<and> [0x41, 0x48, 0x69] \<noteq> [0x48, 0x69 :: byte]"
  by code_simp

section \<open>Oversized payloads\<close>

text \<open>
  C9: on an instance with a clear error latch, a payload longer than 110 bytes (111
  bytes, say) makes both Send and SendRadioHead panic. The panic is raised in the state
  the call was entered with, so no hardware access comes before it, and the call does
  not return, with or without the latch set.
\<close>

theorem oversize_payload_panics:
  assumes "\<not> Error s" and "length data > 110"
  shows "Send s data = Some (Panicked s)
       \<and> SendRadioHead s data to from ident flags = Some (Panicked s)"
  using assms by (simp add: Send_def SendRadioHead_def maxPacketSize_def)

theorem oversize_payload_panics_witness:
  "\<not> Error (newRadio idleHw) \<and> length (replicate 111 (1::byte)) > 110
   \<and> Send (newRadio idleHw) (replicate 111 1) = Some (Panicked (newRadio idleHw))
   \<and> SendRadioHead (newRadio idleHw) (replicate 111 1) 2 1 5 0
       = Some (Panicked (newRadio idleHw))"
proof -
  have e: "\<not> Error (newRadio idleHw)" by (simp add: Error_def newRadio_def)
  have l: "length (replicate 111 (1::byte)) > 110" by simp
  from oversize_payload_panics [OF e l, of 2 1 5 0] e l show ?thesis by blast
qed

section \<open>A headered frame of length zero\<close>

text \<open>
  C10: in ReceiveRadioHead, if the first byte read from the FIFO (the length byte) is 0,
  the call cannot deliver a packet. Whenever it returns, the
  packet is nil and the RSSI is the value read after the interrupt wait, and by then
  either an error is latched or the timeout budget is used up: at least one poll found
  the FIFO empty, and the polls before the last one cover the timeout.
\<close>

theorem zero_length_frame_never_delivered:
  assumes "ReceiveRadioHead s timeout = Some (p, rssi, s')"
    and "take 1 (fifoReads (drop (length (trace s)) (trace s'))) = [0]"
  shows "p = None
       \<and> rssi = rssiValue (hw s)
           (trace s @ [RegWrite RegAutoModes 0, RegWrite RegOpMode ReceiverMode, Await timeout])
       \<and> (Error s' \<or>
            (1 \<le> emptyPolls (drop (length (trace s)) (trace s'))
             \<and> timeout \<le> (int (emptyPolls (drop (length (trace s)) (trace s'))) - 1) * byteDuration))"
proof -
  have ne: "\<not> Error s"
  proof
    assume "Error s"
    with assms(1) have "s' = s" by (simp add: ReceiveRadioHead_def)
    with assms(2) show False by simp
  qed
  define t0 where "t0 = [RegWrite RegAutoModes 0, RegWrite RegOpMode ReceiverMode, Await timeout]"
  define r0 where "r0 = rssiValue (hw s) (trace s @ t0)"
  define s4 where "s4 = snd (ReadRSSI (AwaitInterrupt timeout (setMode ReceiverMode
                     (WriteRegister RegAutoModes 0 s))))"
  have rs: "ReadRSSI (AwaitInterrupt timeout (setMode ReceiverMode
               (WriteRegister RegAutoModes 0 s))) = (r0, s4)"
    by (simp add: s4_def r0_def t0_def ReadRSSI_def Let_def AwaitInterrupt_def WriteRegister_def)
  have t4: "trace s4 = trace s @ t0 @ [RssiRead r0]"
    by (simp add: s4_def r0_def t0_def ReadRSSI_def Let_def AwaitInterrupt_def WriteRegister_def)
  from assms(1) ne rs obtain y where
    l: "receiveRadioHeadLoop s4 r0 timeout (-1) = Some y"
    and y: "(p, rssi, s') = (fst y, fst (snd y), setMode SleepMode (snd (snd y)))"
    by (auto simp: ReceiveRadioHead_def Let_def)
  from receiveRadioHeadLoop_zero_length [OF l] obtain t where r: "fst (snd y) = r0"
    and t: "trace (snd (snd y)) = trace s4 @ t"
    and c: "take 1 (fifoReads t) = [0] \<longrightarrow> fst y = None \<and> (Error (snd (snd y)) \<or>
              (1 \<le> emptyPolls t \<and> timeout \<le> (int (emptyPolls t) - 1) * byteDuration))"
    by auto
  have new: "drop (length (trace s)) (trace s') = t0 @ [RssiRead r0] @ t @ [RegWrite RegOpMode SleepMode]"
    using y t t4 by simp
  have "fifoReads (drop (length (trace s)) (trace s')) = fifoReads t"
    and ep: "emptyPolls (drop (length (trace s)) (trace s')) = emptyPolls t"
    by (simp_all add: new t0_def)
  with assms(2) c have n: "fst y = None" and e: "Error (snd (snd y)) \<or>
              (1 \<le> emptyPolls t \<and> timeout \<le> (int (emptyPolls t) - 1) * byteDuration)"
    by simp_all
  from e y have "Error s' \<or> (1 \<le> emptyPolls t \<and> timeout \<le> (int (emptyPolls t) - 1) * byteDuration)"
    by (auto intro: setMode_sticky)
  with n y r ep show ?thesis by (simp add: r0_def t0_def)
qed

text \<open>A run on a chip whose FIFO holds the bytes 0, 7, 7.\<close>

lemma zero_frame_run:
  "map_option (\<lambda>(p, r, s'). (p, r, trace s', hwErr s', err s'))
     (ReceiveRadioHead (newRadio (feedHw [0, 7, 7])) 0)
   = Some (None, -70,
       [RegWrite RegAutoModes 0, RegWrite RegOpMode ReceiverMode, Await 0, RssiRead (-70),
        RegRead RegIrqFlags2 FifoNotEmpty, RegRead RegFifo 0,
        RegRead RegIrqFlags2 FifoNotEmpty, RegRead RegFifo 7,
        RegRead RegIrqFlags2 FifoNotEmpty, RegRead RegFifo 7,
        RegRead RegIrqFlags2 0, RegWrite RegOpMode SleepMode], False, False)"
  by code_simp

theorem zero_length_frame_never_delivered_witness:
  "\<not> Error (newRadio (feedHw [0, 7, 7]))
   \<and> (\<exists>rssi s'. ReceiveRadioHead (newRadio (feedHw [0, 7, 7])) 0 = Some (None, rssi, s')
        \<and> take 1 (fifoReads (drop (length (trace (newRadio (feedHw [0, 7, 7])))) (trace s'))) = [0]
        \<and> \<not> Error s')"
proof -
  have e: "\<not> Error (newRadio (feedHw [0, 7, 7]))" by (simp add: Error_def newRadio_def)
  from zero_frame_run obtain p rssi s' where
    r: "ReceiveRadioHead (newRadio (feedHw [0, 7, 7])) 0 = Some (p, rssi, s')"
    and t: "trace s' = [RegWrite RegAutoModes 0, RegWrite RegOpMode ReceiverMode, Await 0, RssiRead (-70),
        RegRead RegIrqFlags2 FifoNotEmpty, RegRead RegFifo 0,
        RegRead RegIrqFlags2 FifoNotEmpty, RegRead RegFifo 7,
        RegRead RegIrqFlags2 FifoNotEmpty, RegRead RegFifo 7,
        RegRead RegIrqFlags2 0, RegWrite RegOpMode SleepMode]"
    and ne: "\<not> hwErr s'" "\<not> err s'"
    by auto
  have f: "take 1 (fifoReads (drop (length (trace (newRadio (feedHw [0, 7, 7])))) (trace s'))) = [0]"
    by (simp add: t newRadio_def)
  from zero_length_frame_never_delivered [OF r f] have "p = None" by simp
  with r e f ne show ?thesis by (auto simp: Error_def)
qed

end
